theory Spec2Isabelle
  imports Main "HOL-Library.Sublist" "HOL-Library.AList" "HOL-Library.Char_ord" "HOL-Library.List_Lexorder"
begin

section \<open>Python string operations used by parser.py\<close>

text \<open>
  Strings are character lists. The three string methods the parser relies on are
  \<^verbatim>\<open>str.strip(chars)\<close>, \<^verbatim>\<open>str.split(sep)\<close> and \<^verbatim>\<open>sep.join(parts)\<close>.
\<close>

text \<open>\<^verbatim>\<open>s.strip(chars)\<close>: every leading and every trailing character that belongs to
  \<open>chars\<close> is removed.\<close>

definition strip_chars :: "string \<Rightarrow> string \<Rightarrow> string" where
  "strip_chars chars s =
     rev (dropWhile (\<lambda>c. c \<in> set chars) (rev (dropWhile (\<lambda>c. c \<in> set chars) s)))"

text \<open>Prepending a scanned character to the piece under construction. The empty-list
  branch is never reached from \<open>split_str\<close>, whose result always has a first piece.\<close>

fun cons_first :: "char \<Rightarrow> string list \<Rightarrow> string list" where
  "cons_first c [] = [[c]]"
| "cons_first c (p # ps) = (c # p) # ps"

text \<open>\<^verbatim>\<open>s.split(sep)\<close> for a non-empty separator: a left-to-right scan that cuts at each
  non-overlapping occurrence of \<open>sep\<close>. Python raises ValueError for an empty separator;
  parser.py only ever passes the literals \<^verbatim>\<open>'].['\<close>, \<^verbatim>\<open>':'\<close> and \<^verbatim>\<open>'/'\<close>.\<close>

fun split_str :: "string \<Rightarrow> string \<Rightarrow> string list" where
  "split_str sep [] = [[]]"
| "split_str sep (c # cs) =
     (if sep \<noteq> [] \<and> prefix sep (c # cs)
      then [] # split_str sep (drop (length sep) (c # cs))
      else cons_first c (split_str sep cs))"

text \<open>\<^verbatim>\<open>sep.join(parts)\<close>.\<close>

fun join :: "string \<Rightarrow> string list \<Rightarrow> string" where
  "join sep [] = []"
| "join sep [p] = p"
| "join sep (p # q # ps) = p @ sep @ join sep (q # ps)"

section \<open>normalize_field_ref\<close>

text \<open>The body of the loop over \<open>parts\<close> up to the value appended: \<open>clean_part\<close> after the
  optional replacement by \<open>sub_parts[1]\<close>.\<close>

definition clean_part :: "string \<Rightarrow> string" where
  "clean_part part =
     (let clean = strip_chars ''[]'' part in
      if CHR '':'' \<in> set clean
      then (let sub_parts = split_str '':'' clean in
            if length sub_parts \<ge> 2 then sub_parts ! 1 else clean)
      else clean)"

definition normalize_field_ref :: "string \<Rightarrow> string" where
  "normalize_field_ref field_ref =
     (if field_ref = [] then field_ref
      else join ''.'' (map (\<lambda>part. ''['' @ clean_part part @ '']'') (split_str ''].['' field_ref)))"

section \<open>More string operations\<close>

text \<open>
  Characters of the model are 8-bit values standing for code points below 256.
  \<^verbatim>\<open>str.strip()\<close> without argument removes white space; below 256 Python's
  \<^verbatim>\<open>str.isspace\<close> holds for 9 to 13, 28 to 32, 133 and 160.
\<close>

definition py_isspace :: "char \<Rightarrow> bool" where
  "py_isspace c =
     (let n = (of_char c :: nat)
      in (9 \<le> n \<and> n \<le> 13) \<or> (28 \<le> n \<and> n \<le> 32) \<or> n = 133 \<or> n = 160)"

definition strip_ws :: "string \<Rightarrow> string" where
  "strip_ws s = rev (dropWhile py_isspace (rev (dropWhile py_isspace s)))"

text \<open>
  \<^verbatim>\<open>str.capitalize()\<close> is Python's own and works on all of Unicode, so the functions below
  that call it take it as the parameter \<open>capitalize\<close>. On a string of ASCII characters it
  upper-cases the first character and lower-cases the others; \<open>capitalize_ascii\<close> is that
  restriction, used only to evaluate examples whose attribute values are ASCII.
\<close>

definition ascii_upper :: "char \<Rightarrow> char" where
  "ascii_upper c =
     (let n = (of_char c :: nat) in if 97 \<le> n \<and> n \<le> 122 then char_of (n - 32) else c)"

definition ascii_lower :: "char \<Rightarrow> char" where
  "ascii_lower c =
     (let n = (of_char c :: nat) in if 65 \<le> n \<and> n \<le> 90 then char_of (n + 32) else c)"

fun capitalize_ascii :: "string \<Rightarrow> string" where
  "capitalize_ascii [] = []"
| "capitalize_ascii (c # cs) = ascii_upper c # map ascii_lower cs"

text \<open>Truthiness of an optional string: \<open>None\<close> and the empty string are false. The
  function keeps a true value and turns a false one into \<open>None\<close>.\<close>

fun nonempty :: "string option \<Rightarrow> string option" where
  "nonempty None = None"
| "nonempty (Some s) = (if s = [] then None else Some s)"

text \<open>\<^verbatim>\<open>a or b\<close> on optional strings.\<close>

definition py_or :: "string option \<Rightarrow> string option \<Rightarrow> string option" where
  "py_or a b = (case nonempty a of Some s \<Rightarrow> Some s | None \<Rightarrow> b)"

section \<open>The element tree\<close>

text \<open>An \<^verbatim>\<open>xml.etree.ElementTree\<close> element: tag, attribute dictionary, text and children
  (the tail text is never read by parser.py).\<close>

datatype element =
  Element (el_tag: string) (el_attrib: "(string \<times> string) list")
          (el_text: "string option") (el_children: "element list")

text \<open>\<^verbatim>\<open>e.get(key)\<close>.\<close>

definition el_get :: "element \<Rightarrow> string \<Rightarrow> string option" where
  "el_get e key = map_of (el_attrib e) key"

text \<open>All proper descendants in document order, as \<^verbatim>\<open>.//\<close> enumerates them.\<close>

fun descendants :: "element \<Rightarrow> element list" where
  "descendants (Element t a x cs) = concat (map (\<lambda>c. c # descendants c) cs)"

text \<open>\<^verbatim>\<open>e.findall(".//tag")\<close> and \<^verbatim>\<open>e.find(".//tag")\<close>.\<close>

definition findall_desc :: "string \<Rightarrow> element \<Rightarrow> element list" where
  "findall_desc t e = filter (\<lambda>d. el_tag d = t) (descendants e)"

definition find_desc :: "string \<Rightarrow> element \<Rightarrow> element option" where
  "find_desc t e = (case findall_desc t e of [] \<Rightarrow> None | d # _ \<Rightarrow> Some d)"

text \<open>\<^verbatim>\<open>e.find("tag")\<close> and \<^verbatim>\<open>e.findtext("tag")\<close>: the first child with that tag; the
  text of a found child without text is the empty string.\<close>

definition find_child :: "string \<Rightarrow> element \<Rightarrow> element option" where
  "find_child t e = (case filter (\<lambda>c. el_tag c = t) (el_children e) of [] \<Rightarrow> None | c # _ \<Rightarrow> Some c)"

definition findtext :: "string \<Rightarrow> element \<Rightarrow> string option" where
  "findtext t e =
     (case find_child t e of None \<Rightarrow> None
      | Some c \<Rightarrow> Some (case el_text c of None \<Rightarrow> [] | Some s \<Rightarrow> s))"

text \<open>\<^verbatim>\<open>e.findall(".//outer/inner")\<close>: the \<open>inner\<close> children of every \<open>outer\<close> descendant.\<close>

definition findall_desc_child :: "string \<Rightarrow> string \<Rightarrow> element \<Rightarrow> element list" where
  "findall_desc_child outer inner e =
     concat (map (\<lambda>p. filter (\<lambda>c. el_tag c = inner) (el_children p)) (findall_desc outer e))"

section \<open>Result structures\<close>

record field_obj =
  f_tech_name :: string
  f_name :: string
  f_role :: string
  f_datatype :: string
  f_formula :: string
  f_usage :: string

record connection =
  conn_class :: string
  conn_server :: "string option"
  conn_dbname :: "string option"

record ds_info =
  ds_name :: string
  ds_tech_name :: "string option"
  ds_connections :: "connection list"
  ds_queries :: "string list"
  ds_fields :: "field_obj list"

record data =
  datasources :: "ds_info list"
  worksheets :: "string list"
  dashboards :: "string list"
  parameters :: "string list"

text \<open>Exceptions: a failure of \<^verbatim>\<open>ET.parse\<close>, the KeyError of a dictionary subscript, and the
  UnicodeEncodeError of a \<^verbatim>\<open>print\<close> whose text the output encoding cannot represent.\<close>

datatype py_exception = LoadError string | KeyError string | UnicodeEncodeError string

section \<open>Usage map\<close>

text \<open>Python dictionaries keep insertion order, and the order shows in the rendered usage
  string, so they are association lists: \<open>AList.update\<close> replaces in place or appends.
  \<open>usage_map\<close> maps a canonical id to a dictionary from worksheet name to the list of roles.\<close>

type_synonym usage_map = "(string \<times> (string \<times> string list) list) list"

text \<open>\<^verbatim>\<open>usage_map.setdefault(norm_field, {}).setdefault(ws_name, []).append(role)\<close>\<close>

definition register :: "usage_map \<Rightarrow> string \<Rightarrow> string \<Rightarrow> string \<Rightarrow> usage_map" where
  "register um norm_field ws_name r =
     (let inner = (case map_of um norm_field of None \<Rightarrow> [] | Some m \<Rightarrow> m);
          roles = (case map_of inner ws_name of None \<Rightarrow> [] | Some rs \<Rightarrow> rs)
      in AList.update norm_field (AList.update ws_name (roles @ [r]) inner) um)"

text \<open>The loop over \<^verbatim>\<open>text.split('/')\<close> of a rows or columns shelf.\<close>

definition register_shelf :: "string \<Rightarrow> string \<Rightarrow> usage_map \<Rightarrow> string \<Rightarrow> usage_map" where
  "register_shelf ws_name r um shelf_text =
     foldl (\<lambda>um field.
              let field = strip_chars ''()'' field
              in if field \<noteq> [] then register um (normalize_field_ref field) ws_name r else um)
           um (split_str ''/'' shelf_text)"

text \<open>\<^verbatim>\<open>if node is not None and node.text: ...\<close> around a shelf loop.\<close>

definition shelf_usage :: "string \<Rightarrow> string \<Rightarrow> element option \<Rightarrow> usage_map \<Rightarrow> usage_map" where
  "shelf_usage ws_name r node um =
     (case node of None \<Rightarrow> um
      | Some n \<Rightarrow> (case nonempty (el_text n) of None \<Rightarrow> um
                  | Some t \<Rightarrow> register_shelf ws_name r um t))"

definition filter_usage :: "string \<Rightarrow> usage_map \<Rightarrow> element \<Rightarrow> usage_map" where
  "filter_usage ws_name um filter_node =
     (case nonempty (el_get filter_node ''column'') of None \<Rightarrow> um
      | Some col_name \<Rightarrow> register um (normalize_field_ref col_name) ws_name ''Filter'')"

definition slice_usage :: "string \<Rightarrow> usage_map \<Rightarrow> element \<Rightarrow> usage_map" where
  "slice_usage ws_name um slice_node =
     (case nonempty (el_text slice_node) of None \<Rightarrow> um
      | Some t \<Rightarrow> register um (normalize_field_ref t) ws_name ''Filter'')"

text \<open>The part of the worksheet loop body that updates \<open>usage_map\<close>, for a named worksheet.\<close>

definition worksheet_usage :: "string \<Rightarrow> element \<Rightarrow> usage_map \<Rightarrow> usage_map" where
  "worksheet_usage ws_name ws um =
     (let rows = find_desc ''rows'' ws;
          cols = find_desc ''column'' ws;
          um = shelf_usage ws_name ''Row'' rows um;
          um = shelf_usage ws_name ''Column'' cols um;
          um = foldl (filter_usage ws_name) um (findall_desc ''filter'' ws);
          um = foldl (slice_usage ws_name) um (findall_desc_child ''slices'' ''column'' ws)
      in um)"

text \<open>One iteration of the worksheet loop on the pair of \<open>data\<close> and \<open>usage_map\<close>.\<close>

definition worksheet_step :: "data \<times> usage_map \<Rightarrow> element \<Rightarrow> data \<times> usage_map" where
  "worksheet_step st ws =
     (case nonempty (el_get ws ''name'') of None \<Rightarrow> st
      | Some ws_name \<Rightarrow>
          ((fst st)\<lparr>worksheets := worksheets (fst st) @ [ws_name]\<rparr>,
           worksheet_usage ws_name ws (snd st)))"

definition dashboard_step :: "data \<Rightarrow> element \<Rightarrow> data" where
  "dashboard_step d db =
     (case nonempty (el_get db ''name'') of None \<Rightarrow> d
      | Some n \<Rightarrow> d\<lparr>dashboards := dashboards d @ [n]\<rparr>)"

text \<open>Reading the usage map: \<^verbatim>\<open>usage_map[field][ws_name]\<close>, the empty list where a key is
  absent.\<close>

definition roles_of :: "usage_map \<Rightarrow> string \<Rightarrow> string \<Rightarrow> string list" where
  "roles_of um field ws_name =
     (case map_of um field of None \<Rightarrow> []
      | Some m \<Rightarrow> (case map_of m ws_name of None \<Rightarrow> [] | Some rs \<Rightarrow> rs))"

text \<open>An invariant of the usage map: the keys of a worksheet dictionary are distinct, and
  a worksheet entry is created together with its first role, so no role list is empty.\<close>

definition usage_map_inv :: "usage_map \<Rightarrow> bool" where
  "usage_map_inv um \<longleftrightarrow>
     (\<forall>e \<in> set um. distinct (map fst (snd e)) \<and> (\<forall>e' \<in> set (snd e). snd e' \<noteq> []))"

section \<open>Data sources\<close>

text \<open>The Parameters branch: the loop over the columns of a parameters data source.\<close>

definition parameter_step :: "string list \<Rightarrow> element \<Rightarrow> string list" where
  "parameter_step params col =
     (case nonempty (py_or (el_get col ''caption'') (el_get col ''name'')) of None \<Rightarrow> params
      | Some p_name \<Rightarrow> params @ [strip_chars ''[]'' p_name])"

text \<open>\<^verbatim>\<open>caption == 'Parameters' or (ds.get('name') and ds.get('name').startswith('Parameters'))\<close>\<close>

definition is_parameters :: "element \<Rightarrow> bool" where
  "is_parameters ds =
     (py_or (el_get ds ''caption'') (el_get ds ''name'') = Some ''Parameters'' \<or>
      (case nonempty (el_get ds ''name'') of None \<Rightarrow> False
       | Some n \<Rightarrow> prefix ''Parameters'' n))"

definition connection_step :: "connection list \<Rightarrow> element \<Rightarrow> connection list" where
  "connection_step conns conn =
     (case nonempty (el_get conn ''class'') of None \<Rightarrow> conns
      | Some conn_cls \<Rightarrow>
          if conn_cls \<noteq> ''federated''
          then conns @ [\<lparr>conn_class = conn_cls, conn_server = el_get conn ''server'',
                          conn_dbname = el_get conn ''dbname''\<rparr>]
          else conns)"

text \<open>The custom SQL loop over \<^verbatim>\<open>ds.findall(".//*[@type='text']")\<close>.\<close>

definition query_step :: "string list \<Rightarrow> element \<Rightarrow> string list" where
  "query_step found_queries rel =
     (let t = el_tag rel in
      if sublist ''ObjectModelEncapsulateLegacy'' t \<and> \<not> sublist ''.true'' t then found_queries
      else if suffix ''relation'' t \<or> sublist ''relation'' t
      then (case nonempty (el_text rel) of None \<Rightarrow> found_queries
            | Some sql \<Rightarrow>
                if strip_ws sql \<noteq> []
                then (let query_text = strip_ws sql
                      in if query_text \<notin> set found_queries then found_queries @ [query_text]
                         else found_queries)
                else found_queries)
      else found_queries)"

text \<open>\<open>fields_by_tech\<close>: the dictionary from raw technical name to field object, in
  insertion order.\<close>

type_synonym fields_by_tech = "(string \<times> field_obj) list"

text \<open>Pass 1, one metadata record of class \<open>column\<close>.\<close>

definition metadata_step :: "fields_by_tech \<Rightarrow> element \<Rightarrow> fields_by_tech" where
  "metadata_step fbt mr =
     (case nonempty (findtext ''local-name'' mr) of None \<Rightarrow> fbt
      | Some local_name \<Rightarrow>
          AList.update local_name
            \<lparr>f_tech_name = local_name,
             f_name = (case nonempty (findtext ''remote-name'' mr) of Some n \<Rightarrow> n
                       | None \<Rightarrow> strip_chars ''[]'' local_name),
             f_role = [],
             f_datatype = (case nonempty (findtext ''local-type'' mr) of Some t \<Rightarrow> t | None \<Rightarrow> []),
             f_formula = [],
             f_usage = []\<rparr> fbt)"

text \<open>Pass 2, one column element. The subscript \<^verbatim>\<open>fields_by_tech[name_attr]\<close> raises
  KeyError on a missing key.\<close>

definition column_step ::
  "(string \<Rightarrow> string) \<Rightarrow> fields_by_tech \<Rightarrow> element \<Rightarrow> py_exception + fields_by_tech" where
  "column_step capitalize fbt col =
     (case nonempty (el_get col ''name'') of None \<Rightarrow> Inr fbt
      | Some name_attr \<Rightarrow>
          let fbt = (if map_of fbt name_attr = None
                     then AList.update name_attr
                            \<lparr>f_tech_name = name_attr,
                             f_name = (case nonempty (el_get col ''caption'') of Some c \<Rightarrow> c
                                       | None \<Rightarrow> strip_chars ''[]'' name_attr),
                             f_role = [], f_datatype = [], f_formula = [], f_usage = []\<rparr> fbt
                     else fbt)
          in (case map_of fbt name_attr of None \<Rightarrow> Inl (KeyError name_attr)
              | Some field \<Rightarrow>
                  let field = (case nonempty (el_get col ''caption'') of None \<Rightarrow> field
                               | Some c \<Rightarrow> field\<lparr>f_name := c\<rparr>);
                      field = (case nonempty (el_get col ''role'') of None \<Rightarrow> field
                               | Some r \<Rightarrow> field\<lparr>f_role := capitalize r\<rparr>);
                      field = (case nonempty (el_get col ''datatype'') of None \<Rightarrow> field
                               | Some t \<Rightarrow> field\<lparr>f_datatype := capitalize t\<rparr>);
                      field = (case find_child ''calculation'' col of None \<Rightarrow> field
                               | Some calc \<Rightarrow>
                                   field\<lparr>f_formula := (case nonempty (el_get calc ''formula'') of
                                                         Some f \<Rightarrow> f | None \<Rightarrow> []),
                                         f_role := ''Calculation''\<rparr>)
                  in Inr (AList.update name_attr field fbt)))"

text \<open>A loop whose body may raise: the first exception ends it.\<close>

fun foldl_exc :: "('s \<Rightarrow> 'a \<Rightarrow> py_exception + 's) \<Rightarrow> 's \<Rightarrow> 'a list \<Rightarrow> py_exception + 's" where
  "foldl_exc f s [] = Inr s"
| "foldl_exc f s (x # xs) = (case f s x of Inl e \<Rightarrow> Inl e | Inr s' \<Rightarrow> foldl_exc f s' xs)"

text \<open>Both passes of the field catalog of one data source.\<close>

definition build_fields :: "(string \<Rightarrow> string) \<Rightarrow> element \<Rightarrow> py_exception + fields_by_tech" where
  "build_fields capitalize ds =
     foldl_exc (column_step capitalize)
       (foldl metadata_step []
          (filter (\<lambda>mr. el_get mr ''class'' = Some ''column'')
                  (findall_desc_child ''metadata-records'' ''metadata-record'' ds)))
       (findall_desc ''column'' ds)"

section \<open>Usage resolver\<close>

text \<open>A Python set of role names is a list without duplicates; its order is never
  observed, because the only reader sorts it. \<^verbatim>\<open>s.update(roles)\<close>:\<close>

definition set_update :: "string list \<Rightarrow> string list \<Rightarrow> string list" where
  "set_update s roles = foldl (\<lambda>s r. if r \<in> set s then s else s @ [r]) s roles"

text \<open>\<^verbatim>\<open>tech_names_to_check\<close>\<close>

definition tech_names_to_check :: "string option \<Rightarrow> string \<Rightarrow> string list" where
  "tech_names_to_check ds_tech tech_name =
     (let ds_tech_prefix = (case nonempty ds_tech of Some p \<Rightarrow> p | None \<Rightarrow> [])
      in if ds_tech_prefix \<noteq> [] \<and> \<not> prefix (''['' @ ds_tech_prefix @ '']'') tech_name
         then [tech_name, ''['' @ ds_tech_prefix @ ''].'' @ tech_name]
         else [tech_name])"

text \<open>\<open>usage_info\<close>: worksheet name to set of roles, in insertion order.\<close>

type_synonym usage_info = "(string \<times> string list) list"

definition merge_roles :: "usage_info \<Rightarrow> string \<times> string list \<Rightarrow> usage_info" where
  "merge_roles ui entry =
     (case entry of (ws_name, roles) \<Rightarrow>
        AList.update ws_name
          (set_update (case map_of ui ws_name of None \<Rightarrow> [] | Some s \<Rightarrow> s) roles) ui)"

definition collect_usage :: "usage_map \<Rightarrow> string list \<Rightarrow> usage_info" where
  "collect_usage um tns =
     foldl (\<lambda>ui tn. case map_of um tn of None \<Rightarrow> ui | Some m \<Rightarrow> foldl merge_roles ui m) [] tns"

definition render_entry :: "string \<times> string list \<Rightarrow> string" where
  "render_entry entry =
     (case entry of (ws_name, roles) \<Rightarrow> ws_name @ '' ('' @ join ''/'' (sort roles) @ '')'')"

definition render_usage :: "usage_info \<Rightarrow> string" where
  "render_usage ui =
     (let usage_str_parts = map render_entry ui
      in if usage_str_parts \<noteq> [] then join '', '' usage_str_parts else ''Not Used'')"

definition finalize_field :: "usage_map \<Rightarrow> string option \<Rightarrow> string \<times> field_obj \<Rightarrow> field_obj" where
  "finalize_field um ds_tech kv =
     (case kv of (tech_name, field) \<Rightarrow>
        field\<lparr>f_usage := render_usage (collect_usage um (tech_names_to_check ds_tech tech_name))\<rparr>)"

section \<open>parse_twb\<close>

text \<open>One iteration of the data source loop.\<close>

definition datasource_step ::
  "(string \<Rightarrow> string) \<Rightarrow> usage_map \<Rightarrow> data \<Rightarrow> element \<Rightarrow> py_exception + data" where
  "datasource_step capitalize um d ds =
     (let caption = py_or (el_get ds ''caption'') (el_get ds ''name'') in
      if is_parameters ds
      then Inr (d\<lparr>parameters := foldl parameter_step (parameters d) (findall_desc ''column'' ds)\<rparr>)
      else (case nonempty caption of None \<Rightarrow> Inr d
            | Some cap \<Rightarrow>
                (case build_fields capitalize ds of Inl e \<Rightarrow> Inl e
                 | Inr fbt \<Rightarrow>
                     let info = \<lparr>ds_name = cap, ds_tech_name = el_get ds ''name'',
                                 ds_connections =
                                   foldl connection_step [] (findall_desc ''connection'' ds),
                                 ds_queries =
                                   foldl query_step []
                                     (filter (\<lambda>r. el_get r ''type'' = Some ''text'') (descendants ds)),
                                 ds_fields = map (finalize_field um (el_get ds ''name'')) fbt\<rparr>
                     in if ds_connections info \<noteq> [] \<or> ds_queries info \<noteq> [] \<or> ds_fields info \<noteq> []
                        then Inr (d\<lparr>datasources := datasources d @ [info]\<rparr>)
                        else Inr d)))"

text \<open>The body of the \<^verbatim>\<open>try\<close> block after the tree has been loaded.\<close>

definition parse_root :: "(string \<Rightarrow> string) \<Rightarrow> element \<Rightarrow> py_exception + data" where
  "parse_root capitalize root =
     (let d0 = \<lparr>datasources = [], worksheets = [], dashboards = [], parameters = []\<rparr>;
          st = foldl worksheet_step (d0, []) (findall_desc ''worksheet'' root);
          d1 = foldl dashboard_step (fst st) (findall_desc ''dashboard'' root)
      in foldl_exc (datasource_step capitalize (snd st)) d1 (findall_desc ''datasource'' root))"

text \<open>
  \<open>parse_twb\<close>. Loading the tree (\<^verbatim>\<open>ET.parse(twb_path).getroot()\<close>) is the parameter \<open>load\<close>: it
  raises or yields the root element. The handler of \<^verbatim>\<open>except Exception\<close> first prints the
  path and the exception, then returns \<open>None\<close>; the print is the parameter \<open>print_error\<close>,
  which answers \<open>None\<close> when the message went out and \<open>Some e\<close> when the print itself raised
  \<open>e\<close>. Nothing encloses the handler, so such an exception leaves \<open>parse_twb\<close>. The outcome
  is \<open>Inl e\<close> for an exception that reaches the caller, \<open>Inr None\<close> for the failure signal
  and \<open>Inr (Some d)\<close> for a result.
\<close>

definition parse_twb ::
  "(string \<Rightarrow> string) \<Rightarrow> ('p \<Rightarrow> py_exception + element) \<Rightarrow>
   ('p \<Rightarrow> py_exception \<Rightarrow> py_exception option) \<Rightarrow> 'p \<Rightarrow> py_exception + data option" where
  "parse_twb capitalize load print_error twb_path =
     (case (case load twb_path of Inl e \<Rightarrow> Inl e | Inr root \<Rightarrow> parse_root capitalize root) of
        Inr d \<Rightarrow> Inr (Some d)
      | Inl e \<Rightarrow> (case print_error twb_path e of Some e' \<Rightarrow> Inl e' | None \<Rightarrow> Inr None))"

text \<open>A \<^verbatim>\<open>print\<close> to a UTF-8 standard output, for a path given as its list of code points:
  the encoder refuses the surrogate code points D800 to DFFF, and the print raises.\<close>

definition print_utf8 :: "nat list \<Rightarrow> py_exception \<Rightarrow> py_exception option" where
  "print_utf8 twb_path e =
     (if list_ex (\<lambda>c. 55296 \<le> c \<and> c \<le> 57343) twb_path
      then Some (UnicodeEncodeError ''surrogates not allowed'') else None)"

section \<open>Facts about the string operations\<close>

lemma split_str_not_Nil: "split_str sep s \<noteq> []"
  by (induction sep s rule: split_str.induct) (auto split: list.splits elim: cons_first.elims)

lemma length_cons_first: "ps \<noteq> [] \<Longrightarrow> length (cons_first c ps) = length ps"
  by (cases ps) auto

lemma split_str_single:
  "split_str [d] (c # cs) =
     (if c = d then [] # split_str [d] cs else cons_first c (split_str [d] cs))"
  by simp

lemma sep_char_iff_two_parts: "d \<in> set s \<longleftrightarrow> 2 \<le> length (split_str [d] s)"
proof (induction s)
  case Nil
  then show ?case by simp
next
  case (Cons c cs)
  have ne: "split_str [d] cs \<noteq> []" by (rule split_str_not_Nil)
  then have "1 \<le> length (split_str [d] cs)" by (cases "split_str [d] cs") auto
  with Cons ne show ?case
    by (auto simp: length_cons_first simp del: split_str.simps simp add: split_str_single)
qed

lemma no_sep_in_pieces: "p \<in> set (split_str [d] s) \<Longrightarrow> d \<notin> set p"
proof (induction s arbitrary: p)
  case Nil
  then show ?case by simp
next
  case (Cons c cs)
  obtain q qs where q: "split_str [d] cs = q # qs"
    using split_str_not_Nil [of "[d]" cs] by (cases "split_str [d] cs") auto
  show ?case
  proof (cases "c = d")
    case True
    with Cons show ?thesis by (auto simp: split_str_single simp del: split_str.simps)
  next
    case False
    with Cons.prems q have "p = c # q \<or> p \<in> set qs"
      by (auto simp: split_str_single simp del: split_str.simps)
    with Cons.IH q False show ?thesis by auto
  qed
qed

lemma clean_part_no_colon: "CHR '':'' \<notin> set (clean_part p)"
proof (cases "CHR '':'' \<in> set (strip_chars ''[]'' p)")
  case True
  then have len: "2 \<le> length (split_str '':'' (strip_chars ''[]'' p))"
    using sep_char_iff_two_parts by blast
  then have "split_str '':'' (strip_chars ''[]'' p) ! 1 \<in> set (split_str '':'' (strip_chars ''[]'' p))"
    by (intro nth_mem) simp
  then have "CHR '':'' \<notin> set (split_str '':'' (strip_chars ''[]'' p) ! 1)"
    by (rule no_sep_in_pieces)
  with True len show ?thesis by (simp add: clean_part_def Let_def)
next
  case False
  then show ?thesis by (simp add: clean_part_def Let_def)
qed

lemma strip_chars_framed:
  assumes n: "\<forall>c \<in> set n. c \<notin> set cs" and l: "set l \<subseteq> set cs" and r: "set r \<subseteq> set cs"
  shows "strip_chars cs (l @ n @ r) = n"
proof (cases n)
  case Nil
  from l r have "\<forall>x \<in> set (l @ r). x \<in> set cs" by auto
  then have d: "dropWhile (\<lambda>c. c \<in> set cs) (l @ r) = []"
    by (simp only: dropWhile_eq_Nil_conv)
  show ?thesis unfolding strip_chars_def Nil append_Nil d by simp
next
  case (Cons a n')
  have 1: "dropWhile (\<lambda>c. c \<in> set cs) (l @ n @ r) = n @ r"
    using l n Cons by (subst dropWhile_append2) auto
  have "rev n \<noteq> []" using Cons by simp
  then obtain b m where bm: "rev n = b # m" by (cases "rev n") auto
  then have "b \<in> set n" by (metis list.set_intros(1) set_rev)
  with n have b: "b \<notin> set cs" by blast
  have 2: "dropWhile (\<lambda>c. c \<in> set cs) (rev r @ rev n) = rev n"
    using r b bm by (subst dropWhile_append2) auto
  show ?thesis by (simp add: strip_chars_def 1 2)
qed


lemma split_skip_name:
  "CHR '']'' \<notin> set n \<Longrightarrow> split_str ''].['' rest = p # ps
   \<Longrightarrow> split_str ''].['' (n @ rest) = (n @ p) # ps"
  by (induction n) auto

lemma split_at_delim: "split_str ''].['' (''].['' @ t) = [] # split_str ''].['' t"
  by simp

lemma split_joined_tail:
  "CHR '']'' \<notin> set n \<Longrightarrow> \<forall>m \<in> set ns. CHR '']'' \<notin> set m \<Longrightarrow>
   split_str ''].['' (n @ '']'' @ concat (map (\<lambda>m. ''.['' @ m @ '']'') ns)) =
     (if ns = [] then [n @ '']''] else n # butlast ns @ [last ns @ '']''])"
proof (induction ns arbitrary: n)
  case Nil
  have "split_str ''].['' '']'' = ['']'']" by simp
  from split_skip_name [OF Nil(1) this] show ?case by simp
next
  case (Cons m ms)
  have m: "CHR '']'' \<notin> set m" and ms: "\<forall>k \<in> set ms. CHR '']'' \<notin> set k"
    using Cons.prems by auto
  let ?t = "m @ '']'' @ concat (map (\<lambda>m. ''.['' @ m @ '']'') ms)"
  have "split_str ''].['' (''].['' @ ?t) = [] # split_str ''].['' ?t"
    by (rule split_at_delim)
  from split_skip_name [OF Cons.prems(1) this]
  have "split_str ''].['' (n @ ''].['' @ ?t) = n # split_str ''].['' ?t" by simp
  also have "split_str ''].['' ?t = (if ms = [] then [m @ '']''] else m # butlast ms @ [last ms @ '']''])"
    by (rule Cons.IH [OF m ms])
  finally show ?case by simp
qed

lemma join_wrapped:
  "join ''.'' (map (\<lambda>m. ''['' @ m @ '']'') (n # ns)) =
     ''['' @ n @ '']'' @ concat (map (\<lambda>m. ''.['' @ m @ '']'') ns)"
  by (induction ns arbitrary: n) auto

lemma split_joined:
  assumes "\<forall>m \<in> set (n # ns). CHR '']'' \<notin> set m"
  shows "split_str ''].['' (join ''.'' (map (\<lambda>m. ''['' @ m @ '']'') (n # ns))) =
     (if ns = [] then [''['' @ n @ '']''] else (''['' @ n) # butlast ns @ [last ns @ '']''])"
proof -
  have "split_str ''].['' (n @ '']'' @ concat (map (\<lambda>m. ''.['' @ m @ '']'') ns)) =
     (if ns = [] then [n @ '']''] else n # butlast ns @ [last ns @ '']''])"
    using assms by (intro split_joined_tail) auto
  then show ?thesis using join_wrapped [of n ns] by simp
qed

lemma clean_part_framed:
  assumes "CHR ''['' \<notin> set n" "CHR '']'' \<notin> set n" "CHR '':'' \<notin> set n"
    and "set l \<subseteq> set ''[]''" "set r \<subseteq> set ''[]''"
  shows "clean_part (l @ n @ r) = n"
proof -
  have "strip_chars ''[]'' (l @ n @ r) = n"
    using assms by (intro strip_chars_framed) auto
  with assms(3) show ?thesis by (simp add: clean_part_def Let_def)
qed

lemma clean_part_pieces:
  assumes "\<forall>m \<in> set (n # ns). CHR ''['' \<notin> set m \<and> CHR '']'' \<notin> set m \<and> CHR '':'' \<notin> set m"
  shows "map clean_part
     (if ns = [] then [''['' @ n @ '']''] else (''['' @ n) # butlast ns @ [last ns @ '']'']) = n # ns"
proof (cases "ns = []")
  case True
  have "clean_part (''['' @ n @ '']'') = n"
    using assms by (intro clean_part_framed) auto
  with True show ?thesis by simp
next
  case False
  have a: "clean_part (''['' @ n @ []) = n"
    using assms by (intro clean_part_framed) auto
  have b: "clean_part ([] @ last ns @ '']'') = last ns"
    using assms False by (intro clean_part_framed) auto
  have c: "clean_part m = m" if "m \<in> set (butlast ns)" for m
  proof -
    from that have "m \<in> set ns" by (rule in_set_butlastD)
    then have "clean_part ([] @ m @ []) = m"
      using assms by (intro clean_part_framed) auto
    then show ?thesis by simp
  qed
  have "map clean_part (butlast ns) = butlast ns"
    using c by (simp add: map_idI)
  with a b False show ?thesis by simp
qed

lemma normalize_fixed:
  assumes "\<forall>m \<in> set (n # ns). CHR ''['' \<notin> set m \<and> CHR '']'' \<notin> set m \<and> CHR '':'' \<notin> set m"
  shows "normalize_field_ref (join ''.'' (map (\<lambda>m. ''['' @ m @ '']'') (n # ns))) =
         join ''.'' (map (\<lambda>m. ''['' @ m @ '']'') (n # ns))"
proof -
  let ?y = "join ''.'' (map (\<lambda>m. ''['' @ m @ '']'') (n # ns))"
  have ne: "?y \<noteq> []" using join_wrapped [of n ns] by simp
  have sp: "split_str ''].['' ?y =
     (if ns = [] then [''['' @ n @ '']''] else (''['' @ n) # butlast ns @ [last ns @ '']''])"
    using assms by (intro split_joined) auto
  have "map (\<lambda>part. ''['' @ clean_part part @ '']'') (split_str ''].['' ?y) =
        map (\<lambda>m. ''['' @ m @ '']'') (map clean_part (split_str ''].['' ?y))"
    by simp
  also have "map clean_part (split_str ''].['' ?y) = n # ns"
    unfolding sp using assms by (rule clean_part_pieces)
  finally show ?thesis using ne
    by (simp add: normalize_field_ref_def del: join.simps)
qed

lemma cons_first_sets: "ps \<noteq> [] \<Longrightarrow> p \<in> set (cons_first c ps) \<Longrightarrow> set p \<subseteq> insert c (\<Union>(set ` set ps))"
  by (cases ps) auto

lemma split_piece_subset: "p \<in> set (split_str sep s) \<Longrightarrow> set p \<subseteq> set s"
proof (induction sep s arbitrary: p rule: split_str.induct)
  case (1 sep)
  then show ?case by simp
next
  case (2 sep c cs)
  show ?case
  proof (cases "sep \<noteq> [] \<and> prefix sep (c # cs)")
    case True
    with "2.prems" have "p = [] \<or> p \<in> set (split_str sep (drop (length sep) (c # cs)))" by auto
    then show ?thesis
    proof
      assume "p = []" then show ?thesis by simp
    next
      assume "p \<in> set (split_str sep (drop (length sep) (c # cs)))"
      with "2.IH"(1) True have "set p \<subseteq> set (drop (length sep) (c # cs))" by blast
      then show ?thesis using set_drop_subset by fast
    qed
  next
    case False
    with "2.prems" have "p \<in> set (cons_first c (split_str sep cs))" by auto
    from cons_first_sets [OF split_str_not_Nil this]
    have "set p \<subseteq> insert c (\<Union>(set ` set (split_str sep cs)))" .
    moreover have "\<Union>(set ` set (split_str sep cs)) \<subseteq> set cs"
      using "2.IH"(2) False by blast
    ultimately show ?thesis by auto
  qed
qed

lemma strip_chars_subset: "set (strip_chars cs s) \<subseteq> set s"
proof -
  have "set (dropWhile (\<lambda>c. c \<in> set cs) (rev (dropWhile (\<lambda>c. c \<in> set cs) s)))
        \<subseteq> set (rev (dropWhile (\<lambda>c. c \<in> set cs) s))"
    by (meson set_dropWhileD subsetI)
  also have "\<dots> \<subseteq> set s" by (auto dest: set_dropWhileD)
  finally show ?thesis by (simp add: strip_chars_def)
qed

lemma strip_chars_decomp:
  "\<exists>l r. s = l @ strip_chars cs s @ r \<and> set l \<subseteq> set cs \<and> set r \<subseteq> set cs"
proof -
  let ?P = "\<lambda>c. c \<in> set cs"
  let ?t = "dropWhile ?P s"
  let ?u = "dropWhile ?P (rev ?t)"
  have 1: "s = takeWhile ?P s @ ?t" by simp
  have "rev (takeWhile ?P (rev ?t) @ ?u) = rev (rev ?t)"
    by (simp only: takeWhile_dropWhile_id)
  then have 2: "?t = rev ?u @ rev (takeWhile ?P (rev ?t))"
    by (simp only: rev_append rev_rev_ident)
  have 3: "set (takeWhile ?P s) \<subseteq> set cs" by (auto dest: set_takeWhileD)
  have 4: "set (rev (takeWhile ?P (rev ?t))) \<subseteq> set cs" by (auto dest: set_takeWhileD)
  have "s = takeWhile ?P s @ strip_chars cs s @ rev (takeWhile ?P (rev ?t))"
    using 1 2 by (metis strip_chars_def)
  with 3 4 show ?thesis by blast
qed

lemma strip_chars_ends:
  "strip_chars cs s \<noteq> [] \<Longrightarrow> hd (strip_chars cs s) \<notin> set cs \<and> last (strip_chars cs s) \<notin> set cs"
proof -
  let ?P = "\<lambda>c. c \<in> set cs"
  let ?t = "dropWhile ?P s"
  let ?u = "dropWhile ?P (rev ?t)"
  assume "strip_chars cs s \<noteq> []"
  then have u: "?u \<noteq> []" by (simp add: strip_chars_def)
  have t: "?t \<noteq> []"
  proof
    assume "?t = []"
    then have "?u = []" by (simp only: rev.simps dropWhile.simps)
    with u show False by contradiction
  qed
  have hu: "\<not> ?P (hd ?u)" using u by (rule hd_dropWhile)
  have ht: "\<not> ?P (hd ?t)" using t by (rule hd_dropWhile)
  have "rev ?t = takeWhile ?P (rev ?t) @ ?u" by simp
  then have "last (rev ?t) = last ?u" using u by (metis last_appendR)
  then have "last ?u = hd ?t" using t by (simp add: last_rev)
  with ht have "\<not> ?P (last ?u)" by simp
  moreover have "hd (strip_chars cs s) = last ?u" using u by (simp add: strip_chars_def hd_rev)
  moreover have "last (strip_chars cs s) = hd ?u" using u by (simp add: strip_chars_def last_rev)
  ultimately show ?thesis using hu by simp
qed

lemma clean_part_plain: "CHR '':'' \<notin> set seg \<Longrightarrow> clean_part seg = strip_chars ''[]'' seg"
  using strip_chars_subset [of "''[]''" seg] by (auto simp: clean_part_def Let_def)

section \<open>Reference normalizer\<close>

text \<open>
  Claim C2. The normalizer maps \<^verbatim>\<open>[none:Sales:nk]\<close> to \<^verbatim>\<open>[Sales]\<close>, \<^verbatim>\<open>[sum:Profit:qk]\<close> to
  \<^verbatim>\<open>[Profit]\<close> and \<^verbatim>\<open>[Datasource].[none:Field:nk]\<close> to \<^verbatim>\<open>[Datasource].[Field]\<close>. In general
  the input is cut at the exact delimiter \<^verbatim>\<open>].[\<close>; a debracketed segment that splits on
  \<^verbatim>\<open>:\<close> into two or more parts is replaced by the part at index 1; every segment is
  wrapped in one pair of brackets and the segments are joined with a dot. The source tests
  \<^verbatim>\<open>':' in clean_part\<close> first; that test agrees with the count of parts.
\<close>

theorem normalize_field_ref_segments:
  "normalize_field_ref ''[none:Sales:nk]'' = ''[Sales]'' \<and>
   normalize_field_ref ''[sum:Profit:qk]'' = ''[Profit]'' \<and>
   normalize_field_ref ''[Datasource].[none:Field:nk]'' = ''[Datasource].[Field]'' \<and>
   normalize_field_ref x =
     (if x = [] then []
      else join ''.''
        (map (\<lambda>seg. let d = strip_chars ''[]'' seg; ps = split_str '':'' d
                    in ''['' @ (if 2 \<le> length ps then ps ! 1 else d) @ '']'')
             (split_str ''].['' x)))"
proof -
  have a: "normalize_field_ref ''[none:Sales:nk]'' = ''[Sales]''"
    by (simp add: normalize_field_ref_def clean_part_def strip_chars_def)
  have b: "normalize_field_ref ''[sum:Profit:qk]'' = ''[Profit]''"
    by (simp add: normalize_field_ref_def clean_part_def strip_chars_def)
  have c: "normalize_field_ref ''[Datasource].[none:Field:nk]'' = ''[Datasource].[Field]''"
    by (simp add: normalize_field_ref_def clean_part_def strip_chars_def)
  have seg: "clean_part seg =
      (let d = strip_chars ''[]'' seg; ps = split_str '':'' d
       in if 2 \<le> length ps then ps ! 1 else d)" for seg
    using sep_char_iff_two_parts [of "CHR '':''" "strip_chars ''[]'' seg"]
    by (simp add: clean_part_def Let_def)
  have d: "normalize_field_ref x =
     (if x = [] then []
      else join ''.''
        (map (\<lambda>seg. let d = strip_chars ''[]'' seg; ps = split_str '':'' d
                    in ''['' @ (if 2 \<le> length ps then ps ! 1 else d) @ '']'')
             (split_str ''].['' x)))"
    by (simp add: normalize_field_ref_def seg Let_def)
  from a b c d show ?thesis by blast
qed

text \<open>
  Claim C3 (as stated: normalization is idempotent for every reference string). It fails
  when a name captured between colons carries a bracket of its own: the first pass wraps
  it, the second pass strips every bracket at the ends of the segment.
\<close>

theorem normalize_field_ref_not_idempotent:
  "normalize_field_ref (normalize_field_ref ''[none:[Sales]:nk]'') \<noteq>
   normalize_field_ref ''[none:[Sales]:nk]''"
  by (simp add: normalize_field_ref_def clean_part_def strip_chars_def)

text \<open>
  Claim C3 (amended). Normalization is idempotent on every reference whose segment names,
  as the normalizer extracts them, contain no bracket character; the canonical id of such a
  reference is a fixed point of the normalizer.
\<close>

theorem normalize_field_ref_idempotent_plain_names:
  assumes "\<forall>p \<in> set (split_str ''].['' x). CHR ''['' \<notin> set (clean_part p) \<and> CHR '']'' \<notin> set (clean_part p)"
  shows "normalize_field_ref (normalize_field_ref x) = normalize_field_ref x"
proof (cases "x = []")
  case True
  then show ?thesis by (simp add: normalize_field_ref_def)
next
  case False
  obtain n ns where nn: "map clean_part (split_str ''].['' x) = n # ns"
    using split_str_not_Nil [of "''].[''" x] by (cases "map clean_part (split_str ''].['' x)") auto
  have y: "normalize_field_ref x = join ''.'' (map (\<lambda>m. ''['' @ m @ '']'') (n # ns))"
    using False nn [symmetric] by (simp add: normalize_field_ref_def comp_def del: join.simps)
  have "\<forall>m \<in> set (map clean_part (split_str ''].['' x)).
          CHR ''['' \<notin> set m \<and> CHR '']'' \<notin> set m \<and> CHR '':'' \<notin> set m"
    using assms clean_part_no_colon by auto
  then have "\<forall>m \<in> set (n # ns). CHR ''['' \<notin> set m \<and> CHR '']'' \<notin> set m \<and> CHR '':'' \<notin> set m"
    unfolding nn .
  from normalize_fixed [OF this] show ?thesis unfolding y .
qed

theorem normalize_field_ref_idempotent_plain_names_witness:
  "map clean_part (split_str ''].['' ''[Datasource].[none:Field:nk]'') =
     [''Datasource'', ''Field''] \<and>
   normalize_field_ref (normalize_field_ref ''[Datasource].[none:Field:nk]'') =
   normalize_field_ref ''[Datasource].[none:Field:nk]''"
proof -
  have names: "map clean_part (split_str ''].['' ''[Datasource].[none:Field:nk]'') =
     [''Datasource'', ''Field'']"
    by (simp add: clean_part_def strip_chars_def)
  have h: "\<forall>p \<in> set (split_str ''].['' ''[Datasource].[none:Field:nk]'').
      CHR ''['' \<notin> set (clean_part p) \<and> CHR '']'' \<notin> set (clean_part p)"
    by (simp add: clean_part_def strip_chars_def)
  from names normalize_field_ref_idempotent_plain_names [OF h] show ?thesis by blast
qed

text \<open>
  Claim C4 (as stated: one leading and one trailing bracket are stripped, so the inner
  brackets of \<^verbatim>\<open>[[x]]\<close> survive). The source calls \<^verbatim>\<open>part.strip('[]')\<close>, which removes every
  bracket at either end: \<^verbatim>\<open>[[x]]\<close> becomes \<^verbatim>\<open>[x]\<close>, not \<^verbatim>\<open>[[x]]\<close>.
\<close>

theorem normalize_field_ref_drops_inner_brackets:
  "normalize_field_ref ''[[x]]'' = ''[x]'' \<and> normalize_field_ref ''[[x]]'' \<noteq> ''[[x]]''"
  by (simp add: normalize_field_ref_def clean_part_def strip_chars_def)

text \<open>
  Claim C4 (amended). Each segment loses every leading and every trailing bracket
  character, of either kind. For a reference without colon the canonical id wraps exactly
  what is left, which neither begins nor ends with a bracket.
\<close>

theorem strip_removes_every_outer_bracket:
  assumes "x \<noteq> []" and "CHR '':'' \<notin> set x"
  shows "normalize_field_ref x =
           join ''.'' (map (\<lambda>seg. ''['' @ strip_chars ''[]'' seg @ '']'') (split_str ''].['' x)) \<and>
         (\<forall>seg \<in> set (split_str ''].['' x).
            (\<exists>l r. seg = l @ strip_chars ''[]'' seg @ r \<and>
                   set l \<subseteq> {CHR ''['', CHR '']''} \<and> set r \<subseteq> {CHR ''['', CHR '']''}) \<and>
            (strip_chars ''[]'' seg \<noteq> [] \<longrightarrow>
               hd (strip_chars ''[]'' seg) \<notin> {CHR ''['', CHR '']''} \<and>
               last (strip_chars ''[]'' seg) \<notin> {CHR ''['', CHR '']''}))"
proof -
  have "clean_part seg = strip_chars ''[]'' seg" if "seg \<in> set (split_str ''].['' x)" for seg
    using split_piece_subset [OF that] assms(2) by (intro clean_part_plain) auto
  then have a: "normalize_field_ref x =
           join ''.'' (map (\<lambda>seg. ''['' @ strip_chars ''[]'' seg @ '']'') (split_str ''].['' x))"
    using assms(1) by (simp add: normalize_field_ref_def cong: map_cong)
  have b: "\<exists>l r. seg = l @ strip_chars ''[]'' seg @ r \<and>
                   set l \<subseteq> {CHR ''['', CHR '']''} \<and> set r \<subseteq> {CHR ''['', CHR '']''}" for seg
    using strip_chars_decomp [of seg "''[]''"] by simp
  have c: "strip_chars ''[]'' seg \<noteq> [] \<longrightarrow>
               hd (strip_chars ''[]'' seg) \<notin> {CHR ''['', CHR '']''} \<and>
               last (strip_chars ''[]'' seg) \<notin> {CHR ''['', CHR '']''}" for seg
    using strip_chars_ends [of "''[]''" seg] by simp
  from a b c show ?thesis by blast
qed

theorem strip_removes_every_outer_bracket_witness:
  "''[[x]]'' \<noteq> [] \<and> CHR '':'' \<notin> set ''[[x]]'' \<and> normalize_field_ref ''[[x]]'' = ''[x]''"
  using strip_removes_every_outer_bracket [of "''[[x]]''"] by (simp add: strip_chars_def)

section \<open>Usage map builder\<close>

lemma roles_of_register:
  "roles_of (register um f w r) f' w' =
     (if f' = f \<and> w' = w then roles_of um f w @ [r] else roles_of um f' w')"
  by (auto simp: roles_of_def register_def Let_def update_conv' split: option.splits)

lemma register_keeps: "x \<in> set (roles_of um f w) \<Longrightarrow> x \<in> set (roles_of (register um f' w' r) f w)"
  by (auto simp: roles_of_register)

lemma roles_of_Nil: "roles_of [] f w = []"
  by (simp add: roles_of_def)

lemma foldl_keeps:
  assumes "\<And>um a. x \<in> set (roles_of um f w) \<Longrightarrow> x \<in> set (roles_of (step um a) f w)"
  shows "x \<in> set (roles_of um f w) \<Longrightarrow> x \<in> set (roles_of (foldl step um as) f w)"
  by (induction as arbitrary: um) (auto intro: assms)

lemma register_shelf_keeps:
  "x \<in> set (roles_of um f w) \<Longrightarrow> x \<in> set (roles_of (register_shelf ws_name r um t) f w)"
  unfolding register_shelf_def
  by (rule foldl_keeps) (auto simp: Let_def intro: register_keeps)

lemma shelf_usage_keeps:
  "x \<in> set (roles_of um f w) \<Longrightarrow> x \<in> set (roles_of (shelf_usage ws_name r node um) f w)"
  by (auto simp: shelf_usage_def intro: register_shelf_keeps split: option.splits)

lemma filter_usage_keeps:
  "x \<in> set (roles_of um f w) \<Longrightarrow> x \<in> set (roles_of (filter_usage ws_name um a) f w)"
  by (auto simp: filter_usage_def intro: register_keeps split: option.splits)

lemma slice_usage_keeps:
  "x \<in> set (roles_of um f w) \<Longrightarrow> x \<in> set (roles_of (slice_usage ws_name um a) f w)"
  by (auto simp: slice_usage_def intro: register_keeps split: option.splits)

lemma rows_shelf_example:
  "register_shelf ws_name r um ''(sum(Sales))/[Region]'' =
     register (register um ''[sum(Sales]'' ws_name r) ''[Region]'' ws_name r"
  by (simp add: register_shelf_def strip_chars_def normalize_field_ref_def clean_part_def)

lemma worksheet_usage_keeps_rows:
  assumes "x \<in> set (roles_of (shelf_usage ws_name ''Row'' (find_desc ''rows'' ws) um) f w)"
  shows "x \<in> set (roles_of (worksheet_usage ws_name ws um) f w)"
  unfolding worksheet_usage_def Let_def
  by (intro foldl_keeps slice_usage_keeps filter_usage_keeps shelf_usage_keeps assms)

text \<open>
  Claim C1 (as stated: rows text \<^verbatim>\<open>(sum(Sales))/[Region]\<close> registers \<^verbatim>\<open>[Sales]\<close> and
  \<^verbatim>\<open>[Region]\<close> with role Row). The token \<^verbatim>\<open>(sum(Sales))\<close> loses the parentheses at its two
  ends only and becomes \<^verbatim>\<open>sum(Sales\<close>, so nothing is registered under \<^verbatim>\<open>[Sales]\<close>.
\<close>

theorem rows_shelf_does_not_register_Sales:
  "''Row'' \<notin> set (roles_of (snd (worksheet_step
      (\<lparr>datasources = [], worksheets = [], dashboards = [], parameters = []\<rparr>, [])
      (Element ''worksheet'' [(''name'', ''Sheet1'')] None
         [Element ''rows'' [] (Some ''(sum(Sales))/[Region]'') []]))) ''[Sales]'' ''Sheet1'')"
  by (simp add: worksheet_step_def worksheet_usage_def el_get_def find_desc_def findall_desc_def
      findall_desc_child_def shelf_usage_def rows_shelf_example roles_of_register roles_of_Nil)

text \<open>
  Claim C1 (amended). For every worksheet named \<^verbatim>\<open>Sheet1\<close> whose rows shelf text is
  \<^verbatim>\<open>(sum(Sales))/[Region]\<close>, the rows shelf registers role Row under the ids
  \<^verbatim>\<open>[sum(Sales]\<close> and \<^verbatim>\<open>[Region]\<close> (the parentheses at the ends of each token are stripped,
  the rest is normalized), and both registrations are in the usage map after the
  worksheet has been processed, whatever the map held before.
\<close>

theorem rows_shelf_registers_stripped_tokens:
  assumes name: "el_get ws ''name'' = Some ''Sheet1''"
    and rows: "find_desc ''rows'' ws = Some rows_node"
    and rtext: "el_text rows_node = Some ''(sum(Sales))/[Region]''"
  shows "shelf_usage ''Sheet1'' ''Row'' (find_desc ''rows'' ws) (snd st) =
           register (register (snd st) ''[sum(Sales]'' ''Sheet1'' ''Row'')
                    ''[Region]'' ''Sheet1'' ''Row'' \<and>
         ''Row'' \<in> set (roles_of (snd (worksheet_step st ws)) ''[sum(Sales]'' ''Sheet1'') \<and>
         ''Row'' \<in> set (roles_of (snd (worksheet_step st ws)) ''[Region]'' ''Sheet1'')"
proof -
  let ?um = "shelf_usage ''Sheet1'' ''Row'' (find_desc ''rows'' ws) (snd st)"
  have eq: "?um = register (register (snd st) ''[sum(Sales]'' ''Sheet1'' ''Row'')
                           ''[Region]'' ''Sheet1'' ''Row''"
    by (simp add: shelf_usage_def rows rtext rows_shelf_example)
  have a: "''Row'' \<in> set (roles_of ?um ''[sum(Sales]'' ''Sheet1'')"
    unfolding eq by (simp add: roles_of_register)
  have b: "''Row'' \<in> set (roles_of ?um ''[Region]'' ''Sheet1'')"
    unfolding eq by (simp add: roles_of_register)
  have "snd (worksheet_step st ws) = worksheet_usage ''Sheet1'' ws (snd st)"
    by (simp add: worksheet_step_def name)
  with a b eq show ?thesis by (simp add: worksheet_usage_keeps_rows)
qed

theorem rows_shelf_registers_stripped_tokens_witness:
  "el_get (Element ''worksheet'' [(''name'', ''Sheet1'')] None
         [Element ''rows'' [] (Some ''(sum(Sales))/[Region]'') []]) ''name'' = Some ''Sheet1'' \<and>
   find_desc ''rows'' (Element ''worksheet'' [(''name'', ''Sheet1'')] None
         [Element ''rows'' [] (Some ''(sum(Sales))/[Region]'') []]) =
     Some (Element ''rows'' [] (Some ''(sum(Sales))/[Region]'') []) \<and>
   el_text (Element ''rows'' [] (Some ''(sum(Sales))/[Region]'') []) =
     Some ''(sum(Sales))/[Region]'' \<and>
   ''Row'' \<in> set (roles_of (snd (worksheet_step
      (\<lparr>datasources = [], worksheets = [], dashboards = [], parameters = []\<rparr>, [])
      (Element ''worksheet'' [(''name'', ''Sheet1'')] None
         [Element ''rows'' [] (Some ''(sum(Sales))/[Region]'') []]))) ''[Region]'' ''Sheet1'')"
proof -
  let ?ws = "Element ''worksheet'' [(''name'', ''Sheet1'')] None
         [Element ''rows'' [] (Some ''(sum(Sales))/[Region]'') []]"
  have 1: "el_get ?ws ''name'' = Some ''Sheet1''" by (simp add: el_get_def)
  have 2: "find_desc ''rows'' ?ws = Some (Element ''rows'' [] (Some ''(sum(Sales))/[Region]'') [])"
    by (simp add: find_desc_def findall_desc_def)
  have 3: "el_text (Element ''rows'' [] (Some ''(sum(Sales))/[Region]'') []) =
           Some ''(sum(Sales))/[Region]''" by simp
  from 1 2 3 rows_shelf_registers_stripped_tokens [OF 1 2 3,
      of "(\<lparr>datasources = [], worksheets = [], dashboards = [], parameters = []\<rparr>, [])"]
  show ?thesis by blast
qed

section \<open>Properties of the usage resolver\<close>

lemma foldl_invariant:
  assumes "P s" and "\<And>s a. P s \<Longrightarrow> a \<in> set xs \<Longrightarrow> P (f s a)"
  shows "P (foldl f s xs)"
  using assms by (induction xs arbitrary: s) auto

lemma set_set_update: "set (set_update s roles) = set s \<union> set roles"
  unfolding set_update_def by (induction roles arbitrary: s) auto

lemma distinct_set_update: "distinct s \<Longrightarrow> distinct (set_update s roles)"
  unfolding set_update_def by (induction roles arbitrary: s) auto

lemma set_update_subset: "set (AList.update k v al) \<subseteq> insert (k, v) (set al)"
  by (induction al) auto

lemma merge_roles_distinct:
  assumes "distinct (map fst ui)" and "\<forall>e \<in> set ui. distinct (snd e)"
  shows "distinct (map fst (merge_roles ui e)) \<and> (\<forall>e' \<in> set (merge_roles ui e). distinct (snd e'))"
proof -
  obtain w roles where e: "e = (w, roles)" by (cases e)
  let ?old = "case map_of ui w of None \<Rightarrow> [] | Some s \<Rightarrow> s"
  have "distinct ?old"
    using assms(2) by (auto split: option.splits dest!: map_of_SomeD)
  then have new: "distinct (set_update ?old roles)" by (rule distinct_set_update)
  have m: "merge_roles ui e = AList.update w (set_update ?old roles) ui"
    by (simp add: merge_roles_def e)
  have "distinct (map fst (merge_roles ui e))"
    unfolding m using assms(1) by (rule distinct_update)
  moreover have "\<forall>e' \<in> set (merge_roles ui e). distinct (snd e')"
    unfolding m using set_update_subset [of w "set_update ?old roles" ui] new assms(2) by auto
  ultimately show ?thesis by blast
qed

lemma collect_usage_distinct:
  "distinct (map fst (collect_usage um tns)) \<and> (\<forall>e \<in> set (collect_usage um tns). distinct (snd e))"
  unfolding collect_usage_def
proof (rule foldl_invariant, goal_cases)
  case 1
  show ?case by simp
next
  case (2 ui tn)
  show ?case
  proof (cases "map_of um tn")
    case None
    with 2 show ?thesis by simp
  next
    case (Some m)
    have "distinct (map fst (foldl merge_roles ui m)) \<and>
          (\<forall>e \<in> set (foldl merge_roles ui m). distinct (snd e))"
      by (rule foldl_invariant) (use 2 in \<open>auto dest: merge_roles_distinct\<close>)
    with Some show ?thesis by simp
  qed
qed


lemma map_of_merge_roles:
  "map_of (merge_roles ui (w, roles)) =
     (map_of ui)(w \<mapsto> set_update (case map_of ui w of None \<Rightarrow> [] | Some s \<Rightarrow> s) roles)"
  by (simp add: merge_roles_def update_conv')

lemma roles_after_merge:
  "set (case map_of (foldl merge_roles ui m) w of None \<Rightarrow> [] | Some s \<Rightarrow> s) =
     set (case map_of ui w of None \<Rightarrow> [] | Some s \<Rightarrow> s) \<union> \<Union>{set rs |rs. (w, rs) \<in> set m}"
proof (induction m arbitrary: ui)
  case Nil
  then show ?case by simp
next
  case (Cons e m)
  obtain w0 r0 where e: "e = (w0, r0)" by (cases e)
  have step: "set (case map_of (merge_roles ui e) w of None \<Rightarrow> [] | Some s \<Rightarrow> s) =
     set (case map_of ui w of None \<Rightarrow> [] | Some s \<Rightarrow> s) \<union> (if w = w0 then set r0 else {})"
    by (cases "map_of ui w0") (auto simp: e map_of_merge_roles set_set_update)
  have "\<Union>{set rs |rs. (w, rs) \<in> set (e # m)} =
        (if w = w0 then set r0 else {}) \<union> \<Union>{set rs |rs. (w, rs) \<in> set m}"
    by (auto simp: e)
  then show ?case using Cons.IH [of "merge_roles ui e"] step by (simp add: Un_assoc)
qed

lemma usage_map_inv_lookup:
  assumes "usage_map_inv um" and "map_of um tn = Some m"
  shows "distinct (map fst m)" and "\<forall>e \<in> set m. snd e \<noteq> []"
  using assms map_of_SomeD [OF assms(2)] by (auto simp: usage_map_inv_def)

lemma roles_of_entries:
  assumes "usage_map_inv um"
  shows "set (roles_of um tn w) =
     (case map_of um tn of None \<Rightarrow> {} | Some m \<Rightarrow> \<Union>{set rs |rs. (w, rs) \<in> set m})"
proof (cases "map_of um tn")
  case None
  then show ?thesis by (simp add: roles_of_def)
next
  case (Some m)
  have d: "distinct (map fst m)" using assms Some by (rule usage_map_inv_lookup)
  have "set (case map_of m w of None \<Rightarrow> [] | Some rs \<Rightarrow> rs) = \<Union>{set rs |rs. (w, rs) \<in> set m}"
  proof (cases "map_of m w")
    case None
    then have "\<And>rs. (w, rs) \<notin> set m" by (metis map_of_eq_None_iff fst_conv image_eqI)
    with None show ?thesis by simp
  next
    case (Some a)
    have "(w, rs) \<in> set m \<longleftrightarrow> rs = a" for rs
      using d Some by (metis map_of_eq_Some_iff option.inject)
    then have "{set rs |rs. (w, rs) \<in> set m} = {set a}" by auto
    with Some show ?thesis by simp
  qed
  with Some show ?thesis by (simp add: roles_of_def)
qed

lemma collect_usage_roles_aux:
  assumes "usage_map_inv um"
  shows "set (case map_of (foldl (\<lambda>ui tn. case map_of um tn of None \<Rightarrow> ui
                                  | Some m \<Rightarrow> foldl merge_roles ui m) ui0 tns) w
              of None \<Rightarrow> [] | Some s \<Rightarrow> s) =
         set (case map_of ui0 w of None \<Rightarrow> [] | Some s \<Rightarrow> s) \<union>
         (\<Union>tn \<in> set tns. set (roles_of um tn w))"
proof (induction tns arbitrary: ui0)
  case Nil
  then show ?case by simp
next
  case (Cons tn tns)
  let ?ui1 = "case map_of um tn of None \<Rightarrow> ui0 | Some m \<Rightarrow> foldl merge_roles ui0 m"
  have "set (case map_of ?ui1 w of None \<Rightarrow> [] | Some s \<Rightarrow> s) =
        set (case map_of ui0 w of None \<Rightarrow> [] | Some s \<Rightarrow> s) \<union> set (roles_of um tn w)"
    unfolding roles_of_entries [OF assms]
    by (cases "map_of um tn") (simp_all add: roles_after_merge)
  with Cons.IH [of ?ui1] show ?case by (simp add: Un_assoc)
qed

lemma collect_usage_roles:
  assumes "usage_map_inv um"
  shows "set (case map_of (collect_usage um tns) w of None \<Rightarrow> [] | Some s \<Rightarrow> s) =
         (\<Union>tn \<in> set tns. set (roles_of um tn w))"
  unfolding collect_usage_def using collect_usage_roles_aux [OF assms, of "[]" tns w] by simp

lemma set_update_nonempty: "roles \<noteq> [] \<Longrightarrow> set_update s roles \<noteq> []"
  using set_set_update [of s roles] by (metis Un_empty set_empty)

lemma merge_roles_nonempty:
  assumes "\<forall>e \<in> set ui. snd e \<noteq> []" and "snd e \<noteq> []"
  shows "\<forall>e' \<in> set (merge_roles ui e). snd e' \<noteq> []"
proof -
  obtain w roles where e: "e = (w, roles)" by (cases e)
  let ?new = "set_update (case map_of ui w of None \<Rightarrow> [] | Some s \<Rightarrow> s) roles"
  have "?new \<noteq> []" using assms(2) e by (intro set_update_nonempty) simp
  moreover have "set (merge_roles ui e) \<subseteq> insert (w, ?new) (set ui)"
    unfolding merge_roles_def e by (simp add: set_update_subset)
  ultimately show ?thesis using assms(1) by auto
qed

lemma collect_usage_nonempty:
  assumes "usage_map_inv um"
  shows "\<forall>e \<in> set (collect_usage um tns). snd e \<noteq> []"
  unfolding collect_usage_def
proof (rule foldl_invariant, goal_cases)
  case 1
  show ?case by simp
next
  case (2 ui tn)
  show ?case
  proof (cases "map_of um tn")
    case None
    with 2 show ?thesis by simp
  next
    case (Some m)
    have m: "\<forall>e \<in> set m. snd e \<noteq> []" using assms Some by (rule usage_map_inv_lookup)
    have "\<forall>e \<in> set (foldl merge_roles ui m). snd e \<noteq> []"
      by (rule foldl_invariant) (use 2 m in \<open>auto dest: merge_roles_nonempty\<close>)
    with Some show ?thesis by simp
  qed
qed

lemma usage_map_inv_Nil: "usage_map_inv []"
  by (simp add: usage_map_inv_def)

lemma usage_map_inv_register:
  assumes "usage_map_inv um"
  shows "usage_map_inv (register um f w r)"
proof -
  let ?inner = "case map_of um f of None \<Rightarrow> [] | Some m \<Rightarrow> m"
  let ?roles = "case map_of ?inner w of None \<Rightarrow> [] | Some rs \<Rightarrow> rs"
  let ?new = "AList.update w (?roles @ [r]) ?inner"
  have inner: "distinct (map fst ?inner) \<and> (\<forall>e \<in> set ?inner. snd e \<noteq> [])"
  proof (cases "map_of um f")
    case None
    then show ?thesis by simp
  next
    case (Some m)
    with usage_map_inv_lookup [OF assms Some] show ?thesis by simp
  qed
  have 1: "distinct (map fst ?new)" using inner by (simp only: distinct_update)
  have 2: "\<forall>e \<in> set ?new. snd e \<noteq> []"
  proof
    fix e assume "e \<in> set ?new"
    then have "e = (w, ?roles @ [r]) \<or> e \<in> set ?inner"
      using set_update_subset [of w "?roles @ [r]" ?inner] by blast
    then show "snd e \<noteq> []" using inner by fastforce
  qed
  have sub: "set (register um f w r) \<subseteq> insert (f, ?new) (set um)"
    unfolding register_def Let_def by (rule set_update_subset)
  show ?thesis
    unfolding usage_map_inv_def
  proof
    fix e assume "e \<in> set (register um f w r)"
    with sub have "e = (f, ?new) \<or> e \<in> set um" by blast
    then show "distinct (map fst (snd e)) \<and> (\<forall>e' \<in> set (snd e). snd e' \<noteq> [])"
    proof
      assume "e = (f, ?new)"
      with 1 2 show ?thesis by (simp only: snd_conv)
    next
      assume "e \<in> set um"
      with assms show ?thesis unfolding usage_map_inv_def by blast
    qed
  qed
qed

lemma usage_map_inv_register_shelf:
  assumes "usage_map_inv u"
  shows "usage_map_inv (register_shelf n r u t)"
  unfolding register_shelf_def
proof (rule foldl_invariant [where P = usage_map_inv], goal_cases)
  case 1
  show ?case by (rule assms)
next
  case (2 s a)
  then show ?case by (simp add: Let_def usage_map_inv_register)
qed

lemma usage_map_inv_shelf_usage:
  "usage_map_inv u \<Longrightarrow> usage_map_inv (shelf_usage n r node u)"
  by (simp add: shelf_usage_def usage_map_inv_register_shelf split: option.splits)

lemma usage_map_inv_filter_usage:
  "usage_map_inv u \<Longrightarrow> usage_map_inv (filter_usage n u a)"
  by (simp add: filter_usage_def usage_map_inv_register split: option.splits)

lemma usage_map_inv_slice_usage:
  "usage_map_inv u \<Longrightarrow> usage_map_inv (slice_usage n u a)"
  by (simp add: slice_usage_def usage_map_inv_register split: option.splits)

lemma usage_map_inv_worksheet_usage:
  assumes "usage_map_inv um"
  shows "usage_map_inv (worksheet_usage ws_name ws um)"
proof -
  let ?u1 = "shelf_usage ws_name ''Row'' (find_desc ''rows'' ws) um"
  let ?u2 = "shelf_usage ws_name ''Column'' (find_desc ''column'' ws) ?u1"
  let ?u3 = "foldl (filter_usage ws_name) ?u2 (findall_desc ''filter'' ws)"
  have 1: "usage_map_inv ?u1" using assms by (rule usage_map_inv_shelf_usage)
  then have 2: "usage_map_inv ?u2" by (rule usage_map_inv_shelf_usage)
  have 3: "usage_map_inv ?u3"
    by (rule foldl_invariant [where P = usage_map_inv]) (simp_all add: 2 usage_map_inv_filter_usage)
  have "usage_map_inv (foldl (slice_usage ws_name) ?u3 (findall_desc_child ''slices'' ''column'' ws))"
    by (rule foldl_invariant [where P = usage_map_inv]) (simp_all add: 3 usage_map_inv_slice_usage)
  then show ?thesis by (simp add: worksheet_usage_def Let_def)
qed

lemma usage_map_inv_worksheets: "usage_map_inv (snd (foldl worksheet_step (d, []) wss))"
proof (rule foldl_invariant [where P = "\<lambda>st. usage_map_inv (snd st)"], goal_cases)
  case 1
  show ?case by (simp add: usage_map_inv_Nil)
next
  case (2 st ws)
  then show ?case
    by (simp add: worksheet_step_def usage_map_inv_worksheet_usage split: option.splits)
qed

lemma entry_lookup: "distinct (map fst ui) \<Longrightarrow> (w, rs) \<in> set ui \<Longrightarrow> map_of ui w = Some rs"
  by simp

lemma collect_usage_entries:
  assumes um_def: "um = snd (foldl worksheet_step (d, []) wss)"
  shows "distinct (map fst (collect_usage um tns))"
    and "e \<in> set (collect_usage um tns) \<Longrightarrow> distinct (snd e)"
    and "e \<in> set (collect_usage um tns) \<Longrightarrow> snd e \<noteq> []"
    and "e \<in> set (collect_usage um tns) \<Longrightarrow>
           set (snd e) = (\<Union>tn \<in> set tns. set (roles_of um tn (fst e)))"
proof -
  let ?ui = "collect_usage um tns"
  have inv: "usage_map_inv um" unfolding um_def by (rule usage_map_inv_worksheets)
  show d: "distinct (map fst ?ui)" using collect_usage_distinct [of um tns] by blast
  show "distinct (snd e)" if "e \<in> set ?ui"
    using collect_usage_distinct [of um tns] that by blast
  show "snd e \<noteq> []" if "e \<in> set ?ui"
    using collect_usage_nonempty [OF inv, of tns] that by blast
  show "set (snd e) = (\<Union>tn \<in> set tns. set (roles_of um tn (fst e)))" if "e \<in> set ?ui"
  proof -
    from that have "(fst e, snd e) \<in> set ?ui" by simp
    with d have "map_of ?ui (fst e) = Some (snd e)" by (rule entry_lookup)
    with collect_usage_roles [OF inv, of tns "fst e"] show ?thesis by simp
  qed
qed

text \<open>
  Claim C5 (as stated: the usage map deduplicates roles, so registering Row twice for one
  field and worksheet leaves a collection of size 1). The usage map appends to a list: a
  field that occurs twice in one rows shelf has the role list \<^verbatim>\<open>['Row', 'Row']\<close>.
\<close>

theorem usage_map_keeps_repeated_role:
  "roles_of (snd (worksheet_step
      (\<lparr>datasources = [], worksheets = [], dashboards = [], parameters = []\<rparr>, [])
      (Element ''worksheet'' [(''name'', ''Sheet1'')] None
         [Element ''rows'' [] (Some ''[Sales]/[Sales]'') []]))) ''[Sales]'' ''Sheet1''
   = [''Row'', ''Row'']"
  by code_simp

text \<open>
  Claim C5 (amended). The usage map keeps one list entry per registration; the usage
  resolver is what deduplicates. For the usage map of any list of worksheets and any list
  of candidate ids, \<open>usage_info\<close> holds every worksheet once, and the roles of a worksheet
  form a duplicate-free collection that is the union of the roles registered for it under
  the candidates. So a role shows at most once per field and worksheet.
\<close>

theorem resolver_deduplicates_roles:
  "distinct (map fst (collect_usage (snd (foldl worksheet_step (d, []) wss)) tns)) \<and>
   (\<forall>e \<in> set (collect_usage (snd (foldl worksheet_step (d, []) wss)) tns).
      distinct (snd e) \<and>
      set (snd e) = (\<Union>tn \<in> set tns. set (roles_of (snd (foldl worksheet_step (d, []) wss)) tn (fst e))))"
proof -
  let ?um = "snd (foldl worksheet_step (d, []) wss)"
  let ?ui = "collect_usage ?um tns"
  have inv: "usage_map_inv ?um" by (rule usage_map_inv_worksheets)
  have d: "distinct (map fst ?ui)" and dr: "\<forall>e \<in> set ?ui. distinct (snd e)"
    using collect_usage_distinct [of ?um tns] by blast+
  have "set (snd e) = (\<Union>tn \<in> set tns. set (roles_of ?um tn (fst e)))" if "e \<in> set ?ui" for e
  proof -
    from that have "(fst e, snd e) \<in> set ?ui" by simp
    with d have "map_of ?ui (fst e) = Some (snd e)" by (rule entry_lookup)
    with collect_usage_roles [OF inv, of tns "fst e"] show ?thesis by simp
  qed
  with d dr show ?thesis by blast
qed

theorem resolver_deduplicates_roles_witness:
  "(''Sheet1'', [''Row'']) \<in> set (collect_usage (snd (foldl worksheet_step
      (\<lparr>datasources = [], worksheets = [], dashboards = [], parameters = []\<rparr>, [])
      [Element ''worksheet'' [(''name'', ''Sheet1'')] None
         [Element ''rows'' [] (Some ''[Sales]/[Sales]'') []]])) [''[Sales]'']) \<and>
   set [''Row''] = (\<Union>tn \<in> set [''[Sales]'']. set (roles_of (snd (foldl worksheet_step
      (\<lparr>datasources = [], worksheets = [], dashboards = [], parameters = []\<rparr>, [])
      [Element ''worksheet'' [(''name'', ''Sheet1'')] None
         [Element ''rows'' [] (Some ''[Sales]/[Sales]'') []]])) tn ''Sheet1''))"
proof -
  let ?um = "snd (foldl worksheet_step
      (\<lparr>datasources = [], worksheets = [], dashboards = [], parameters = []\<rparr>, [])
      [Element ''worksheet'' [(''name'', ''Sheet1'')] None
         [Element ''rows'' [] (Some ''[Sales]/[Sales]'') []]])"
  have ev: "collect_usage ?um [''[Sales]''] = [(''Sheet1'', [''Row''])]" by code_simp
  then have m: "(''Sheet1'', [''Row'']) \<in> set (collect_usage ?um [''[Sales]''])" by simp
  from resolver_deduplicates_roles [of "\<lparr>datasources = [], worksheets = [], dashboards = [], parameters = []\<rparr>"
      "[Element ''worksheet'' [(''name'', ''Sheet1'')] None
         [Element ''rows'' [] (Some ''[Sales]/[Sales]'') []]]" "[''[Sales]'']"] m
  have "set (snd (''Sheet1'', [''Row''])) =
        (\<Union>tn \<in> set [''[Sales]'']. set (roles_of ?um tn (fst (''Sheet1'', [''Row'']))))"
    by blast
  with m show ?thesis by (simp only: fst_conv snd_conv) 
qed

text \<open>
  Claim C7. The usage string of a field is \<^verbatim>\<open>Not Used\<close> when \<open>usage_info\<close> is empty, and
  otherwise the entries \<^verbatim>\<open>worksheet (Role1/Role2...)\<close> joined by a comma and a space, where
  the roles of an entry are the roles registered for that worksheet under the candidate
  ids, each once, in alphabetical order. Every worksheet has one entry at most, every
  entry has at least one role, its role collection is duplicate-free and equal to the
  union of the registered roles, and the worksheets that have an entry are those with a
  role registered under one of the candidate ids. A document with worksheet \<^verbatim>\<open>Sheet1\<close>
  using \<^verbatim>\<open>[Sales]\<close> on the rows shelf and in a filter, and one data source with the field
  \<^verbatim>\<open>[Sales]\<close>, yields the usage \<^verbatim>\<open>Sheet1 (Filter/Row)\<close>.
\<close>

theorem usage_string_rendering:
  "f_usage (finalize_field (snd (foldl worksheet_step (d, []) wss)) ds_tech (tn, field)) =
     (if (collect_usage (snd (foldl worksheet_step (d, []) wss))
        (tech_names_to_check ds_tech tn)) = []
      then ''Not Used''
      else join '', ''
             (map (\<lambda>e. fst e @ '' ('' @
                         join ''/'' (sorted_list_of_set
                                      (\<Union>c \<in> set (tech_names_to_check ds_tech tn). set (roles_of (snd (foldl worksheet_step (d, []) wss)) c (fst e)))) @
                         '')'')
                  (collect_usage (snd (foldl worksheet_step (d, []) wss))
        (tech_names_to_check ds_tech tn)))) \<and>
   distinct (map fst (collect_usage (snd (foldl worksheet_step (d, []) wss))
        (tech_names_to_check ds_tech tn))) \<and>
   (\<forall>e \<in> set (collect_usage (snd (foldl worksheet_step (d, []) wss))
        (tech_names_to_check ds_tech tn)).
      snd e \<noteq> [] \<and> distinct (snd e) \<and>
      set (snd e) = (\<Union>c \<in> set (tech_names_to_check ds_tech tn). set (roles_of (snd (foldl worksheet_step (d, []) wss)) c (fst e)))) \<and>
   (w \<in> fst ` set (collect_usage (snd (foldl worksheet_step (d, []) wss))
        (tech_names_to_check ds_tech tn))
      \<longleftrightarrow> (\<exists>c \<in> set (tech_names_to_check ds_tech tn). roles_of (snd (foldl worksheet_step (d, []) wss)) c w \<noteq> [])) \<and>
   parse_twb capitalize (\<lambda>p. Inr
     (Element ''workbook'' [] None
       [Element ''datasources'' [] None
          [Element ''datasource'' [(''caption'', ''Orders''), (''name'', ''ds1'')] None
             [Element ''column'' [(''name'', ''[Sales]'')] None []]],
        Element ''worksheets'' [] None
          [Element ''worksheet'' [(''name'', ''Sheet1'')] None
             [Element ''rows'' [] (Some ''[Sales]'') [],
              Element ''filter'' [(''column'', ''[Sales]'')] None []]]])) print_error twb_path =
   Inr (Some \<lparr>datasources =
      [\<lparr>ds_name = ''Orders'', ds_tech_name = Some ''ds1'', ds_connections = [],
          ds_queries = [],
          ds_fields =
            [\<lparr>f_tech_name = ''[Sales]'', f_name = ''Sales'', f_role = [], f_datatype = [],
                f_formula = [], f_usage = ''Sheet1 (Filter/Row)''\<rparr>]\<rparr>],
     worksheets = [''Sheet1''], dashboards = [], parameters = []\<rparr>)"
proof -
  let ?um = "snd (foldl worksheet_step (d, []) wss)"
  let ?cs = "tech_names_to_check ds_tech tn"
  let ?ui = "collect_usage ?um ?cs"
  have inv: "usage_map_inv ?um" by (rule usage_map_inv_worksheets)
  note ent = collect_usage_entries [OF refl, where d = d and wss = wss and tns = "?cs"]
  have b: "\<forall>e \<in> set ?ui. snd e \<noteq> [] \<and> distinct (snd e) \<and>
             set (snd e) = (\<Union>c \<in> set ?cs. set (roles_of ?um c (fst e)))"
    using ent(2,3,4) by blast
  have d: "distinct (map fst ?ui)" by (rule ent(1))
  have srt: "sort (snd e) =
             sorted_list_of_set (\<Union>c \<in> set ?cs. set (roles_of ?um c (fst e)))"
    if "e \<in> set ?ui" for e
  proof -
    have "sorted_list_of_set (set (snd e)) = sort (remdups (snd e))"
      by (rule sorted_list_of_set_sort_remdups)
    also have "remdups (snd e) = snd e" using ent(2) [OF that] by (rule distinct_remdups_id)
    finally show ?thesis using ent(4) [OF that] by simp
  qed
  have a: "f_usage (finalize_field ?um ds_tech (tn, field)) =
     (if ?ui = [] then ''Not Used''
      else join '', ''
             (map (\<lambda>e. fst e @ '' ('' @
                         join ''/'' (sorted_list_of_set
                                      (\<Union>c \<in> set ?cs. set (roles_of ?um c (fst e)))) @
                         '')'')
                  ?ui))"
  proof -
    let ?F = "\<lambda>e. fst e @ '' ('' @
                  join ''/'' (sorted_list_of_set
                               (\<Union>c \<in> set ?cs. set (roles_of ?um c (fst e)))) @ '')''"
    have meq: "map render_entry ?ui = map ?F ?ui"
    proof (rule map_cong [OF refl])
      fix e assume e: "e \<in> set ?ui"
      have "render_entry e = fst e @ '' ('' @ join ''/'' (sort (snd e)) @ '')''"
        by (simp add: render_entry_def case_prod_beta)
      then show "render_entry e = ?F e" by (simp only: srt [OF e])
    qed
    have 1: "f_usage (finalize_field ?um ds_tech (tn, field)) =
             (if map render_entry ?ui \<noteq> [] then join '', '' (map render_entry ?ui)
              else ''Not Used'')"
      by (simp add: finalize_field_def render_usage_def Let_def)
    show ?thesis unfolding 1 meq by (cases "?ui = []") simp_all
  qed
  have c: "w \<in> fst ` set ?ui \<longleftrightarrow> (\<exists>c \<in> set ?cs. roles_of ?um c w \<noteq> [])"
  proof
    assume "w \<in> fst ` set ?ui"
    then obtain rs where e: "(w, rs) \<in> set ?ui" by auto
    with b have ne: "set rs \<noteq> {}" by fastforce
    from d e have "map_of ?ui w = Some rs" by (rule entry_lookup)
    then have "set rs = (\<Union>c \<in> set ?cs. set (roles_of ?um c w))"
      using collect_usage_roles [OF inv, of ?cs w] by simp
    with ne have "(\<Union>c \<in> set ?cs. set (roles_of ?um c w)) \<noteq> {}" by simp
    then show "\<exists>c \<in> set ?cs. roles_of ?um c w \<noteq> []" by auto
  next
    assume "\<exists>c \<in> set ?cs. roles_of ?um c w \<noteq> []"
    then have "(\<Union>c \<in> set ?cs. set (roles_of ?um c w)) \<noteq> {}" by auto
    then have "set (case map_of ?ui w of None \<Rightarrow> [] | Some s \<Rightarrow> s) \<noteq> {}"
      using collect_usage_roles [OF inv, of ?cs w] by simp
    then have "map_of ?ui w \<noteq> None" by (cases "map_of ?ui w") auto
    then show "w \<in> fst ` set ?ui" by (simp add: map_of_eq_None_iff)
  qed
  have root: "parse_root capitalize
     (Element ''workbook'' [] None
       [Element ''datasources'' [] None
          [Element ''datasource'' [(''caption'', ''Orders''), (''name'', ''ds1'')] None
             [Element ''column'' [(''name'', ''[Sales]'')] None []]],
        Element ''worksheets'' [] None
          [Element ''worksheet'' [(''name'', ''Sheet1'')] None
             [Element ''rows'' [] (Some ''[Sales]'') [],
              Element ''filter'' [(''column'', ''[Sales]'')] None []]]]) =
     Inr \<lparr>datasources =
      [\<lparr>ds_name = ''Orders'', ds_tech_name = Some ''ds1'', ds_connections = [],
          ds_queries = [],
          ds_fields =
            [\<lparr>f_tech_name = ''[Sales]'', f_name = ''Sales'', f_role = [], f_datatype = [],
                f_formula = [], f_usage = ''Sheet1 (Filter/Row)''\<rparr>]\<rparr>],
     worksheets = [''Sheet1''], dashboards = [], parameters = []\<rparr>"
    by code_simp
  have e: "parse_twb capitalize (\<lambda>p. Inr
     (Element ''workbook'' [] None
       [Element ''datasources'' [] None
          [Element ''datasource'' [(''caption'', ''Orders''), (''name'', ''ds1'')] None
             [Element ''column'' [(''name'', ''[Sales]'')] None []]],
        Element ''worksheets'' [] None
          [Element ''worksheet'' [(''name'', ''Sheet1'')] None
             [Element ''rows'' [] (Some ''[Sales]'') [],
              Element ''filter'' [(''column'', ''[Sales]'')] None []]]])) print_error twb_path =
   Inr (Some \<lparr>datasources =
      [\<lparr>ds_name = ''Orders'', ds_tech_name = Some ''ds1'', ds_connections = [],
          ds_queries = [],
          ds_fields =
            [\<lparr>f_tech_name = ''[Sales]'', f_name = ''Sales'', f_role = [], f_datatype = [],
                f_formula = [], f_usage = ''Sheet1 (Filter/Row)''\<rparr>]\<rparr>],
     worksheets = [''Sheet1''], dashboards = [], parameters = []\<rparr>)"
    by (simp add: parse_twb_def root)
  from a d b c e show ?thesis by blast
qed

theorem usage_string_rendering_witness:
  "(\<exists>c \<in> set (tech_names_to_check (Some ''ds1'') ''[Sales]'').
      roles_of (snd (foldl worksheet_step
        (\<lparr>datasources = [], worksheets = [], dashboards = [], parameters = []\<rparr>, [])
        [Element ''worksheet'' [(''name'', ''Sheet1'')] None
           [Element ''rows'' [] (Some ''[Sales]'') [],
            Element ''filter'' [(''column'', ''[Sales]'')] None []]])) c ''Sheet1'' \<noteq> []) \<and>
   ''Sheet1'' \<in> fst ` set (collect_usage (snd (foldl worksheet_step
        (\<lparr>datasources = [], worksheets = [], dashboards = [], parameters = []\<rparr>, [])
        [Element ''worksheet'' [(''name'', ''Sheet1'')] None
           [Element ''rows'' [] (Some ''[Sales]'') [],
            Element ''filter'' [(''column'', ''[Sales]'')] None []]]))
      (tech_names_to_check (Some ''ds1'') ''[Sales]''))"
proof -
  let ?um = "snd (foldl worksheet_step
        (\<lparr>datasources = [], worksheets = [], dashboards = [], parameters = []\<rparr>, [])
        [Element ''worksheet'' [(''name'', ''Sheet1'')] None
           [Element ''rows'' [] (Some ''[Sales]'') [],
            Element ''filter'' [(''column'', ''[Sales]'')] None []]])"
  have 1: "''[Sales]'' \<in> set (tech_names_to_check (Some ''ds1'') ''[Sales]'')"
    by (simp add: tech_names_to_check_def)
  have 2: "roles_of ?um ''[Sales]'' ''Sheet1'' = [''Row'', ''Filter'']" by code_simp
  from 1 2 have h: "\<exists>c \<in> set (tech_names_to_check (Some ''ds1'') ''[Sales]'').
      roles_of ?um c ''Sheet1'' \<noteq> []" by (intro bexI [of _ "''[Sales]''"]) simp_all
  have "''Sheet1'' \<in> fst ` set (collect_usage ?um (tech_names_to_check (Some ''ds1'') ''[Sales]''))
        \<longleftrightarrow> (\<exists>c \<in> set (tech_names_to_check (Some ''ds1'') ''[Sales]'').
               roles_of ?um c ''Sheet1'' \<noteq> [])"
    by (rule usage_string_rendering
         [where d = "\<lparr>datasources = [], worksheets = [], dashboards = [], parameters = []\<rparr>"
            and wss = "[Element ''worksheet'' [(''name'', ''Sheet1'')] None
                [Element ''rows'' [] (Some ''[Sales]'') [],
                 Element ''filter'' [(''column'', ''[Sales]'')] None []]]"
            and ds_tech = "Some ''ds1''" and tn = "''[Sales]''" and w = "''Sheet1''",
          THEN conjunct2, THEN conjunct2, THEN conjunct2, THEN conjunct1])
  with h
  show ?thesis by blast
qed

section \<open>Field catalog builder\<close>

lemma foldl_exc_append:
  "foldl_exc g s (xs @ ys) =
     (case foldl_exc g s xs of Inl e \<Rightarrow> Inl e | Inr s' \<Rightarrow> foldl_exc g s' ys)"
  by (induction xs arbitrary: s) (auto split: sum.splits)

lemma foldl_exc_total:
  assumes "\<And>s a. \<exists>s'. g s a = Inr s'"
  shows "\<exists>s'. foldl_exc g s xs = Inr s'"
proof (induction xs arbitrary: s)
  case Nil
  show ?case by simp
next
  case (Cons a xs)
  obtain s1 where "g s a = Inr s1" using assms by blast
  with Cons show ?case by simp
qed

lemma column_step_Inr: "\<exists>fbt'. column_step capitalize fbt col = Inr fbt'"
  by (auto simp: column_step_def Let_def update_conv' split: option.splits)

lemma column_step_other:
  assumes "nonempty (el_get col ''name'') \<noteq> Some n" and "column_step capitalize fbt col = Inr fbt'"
  shows "map_of fbt' n = map_of fbt n"
  using assms
  by (auto simp: column_step_def Let_def update_conv' split: option.splits if_splits)

lemma column_step_same:
  assumes "nonempty (el_get col ''name'') = Some n" and "map_of fbt n = Some f"
  shows "\<exists>f'. column_step capitalize fbt col = Inr (AList.update n f' fbt) \<and>
           f_datatype f' = (case nonempty (el_get col ''datatype'') of
                              Some t \<Rightarrow> capitalize t | None \<Rightarrow> f_datatype f) \<and>
           (\<forall>calc. find_child ''calculation'' col = Some calc \<longrightarrow>
              f_role f' = ''Calculation'' \<and>
              f_formula f' = (case nonempty (el_get calc ''formula'') of Some x \<Rightarrow> x | None \<Rightarrow> []))"
  using assms
  by (auto simp: column_step_def Let_def split: option.splits)

lemma columns_pass_keeps:
  assumes "map_of fbt n = Some f"
  shows "\<exists>fbt' f'. foldl_exc (column_step capitalize) fbt cs = Inr fbt' \<and> map_of fbt' n = Some f' \<and>
           ((\<forall>c \<in> set cs. nonempty (el_get c ''name'') \<noteq> Some n) \<longrightarrow> f' = f) \<and>
           ((\<forall>c \<in> set cs. nonempty (el_get c ''name'') = Some n \<longrightarrow>
                nonempty (el_get c ''datatype'') = None) \<longrightarrow> f_datatype f' = f_datatype f)"
  using assms
proof (induction cs arbitrary: fbt f)
  case Nil
  then show ?case by simp
next
  case (Cons c cs)
  show ?case
  proof (cases "nonempty (el_get c ''name'') = Some n")
    case True
    from column_step_same [OF True Cons.prems] obtain f1 where
      st: "column_step capitalize fbt c = Inr (AList.update n f1 fbt)" and
      dt: "f_datatype f1 = (case nonempty (el_get c ''datatype'') of
                              Some t \<Rightarrow> capitalize t | None \<Rightarrow> f_datatype f)"
      by blast
    have "map_of (AList.update n f1 fbt) n = Some f1" by (simp add: update_conv')
    from Cons.IH [OF this] obtain fbt' f' where
      r: "foldl_exc (column_step capitalize) (AList.update n f1 fbt) cs = Inr fbt'" "map_of fbt' n = Some f'"
         "(\<forall>c \<in> set cs. nonempty (el_get c ''name'') = Some n \<longrightarrow>
                nonempty (el_get c ''datatype'') = None) \<longrightarrow> f_datatype f' = f_datatype f1"
      by blast
    from r st dt True show ?thesis by (auto split: option.splits)
  next
    case False
    obtain fbt1 where st: "column_step capitalize fbt c = Inr fbt1" using column_step_Inr by blast
    from column_step_other [OF False st] Cons.prems have "map_of fbt1 n = Some f" by simp
    from Cons.IH [OF this] st False show ?thesis by auto
  qed
qed

text \<open>
  Claim C6 (as stated: a field of the metadata pass that a column definition with a
  calculation child also names keeps the datatype of the metadata pass). A column that
  carries a \<open>datatype\<close> attribute overrides the datatype, calculation or not: the metadata
  record says \<^verbatim>\<open>string\<close>, the column says \<^verbatim>\<open>real\<close>, the field ends with \<^verbatim>\<open>Real\<close> (the
  values are ASCII, where \<^verbatim>\<open>str.capitalize\<close> is \<open>capitalize_ascii\<close>).
\<close>

theorem column_datatype_overrides_metadata:
  "foldl metadata_step []
     (filter (\<lambda>mr. el_get mr ''class'' = Some ''column'')
        (findall_desc_child ''metadata-records'' ''metadata-record''
           (Element ''datasource'' [(''caption'', ''Orders''), (''name'', ''ds1'')] None
              [Element ''metadata-records'' [] None
                 [Element ''metadata-record'' [(''class'', ''column'')] None
                    [Element ''local-name'' [] (Some ''[Calc1]'') [],
                     Element ''local-type'' [] (Some ''string'') []]],
               Element ''column'' [(''name'', ''[Calc1]''), (''datatype'', ''real'')] None
                 [Element ''calculation'' [(''formula'', ''SUM([Sales])'')] None []]]))) =
     [(''[Calc1]'', \<lparr>f_tech_name = ''[Calc1]'', f_name = ''Calc1'', f_role = [],
                      f_datatype = ''string'', f_formula = [], f_usage = []\<rparr>)] \<and>
   build_fields capitalize_ascii
     (Element ''datasource'' [(''caption'', ''Orders''), (''name'', ''ds1'')] None
        [Element ''metadata-records'' [] None
           [Element ''metadata-record'' [(''class'', ''column'')] None
              [Element ''local-name'' [] (Some ''[Calc1]'') [],
               Element ''local-type'' [] (Some ''string'') []]],
         Element ''column'' [(''name'', ''[Calc1]''), (''datatype'', ''real'')] None
           [Element ''calculation'' [(''formula'', ''SUM([Sales])'')] None []]]) =
     Inr [(''[Calc1]'', \<lparr>f_tech_name = ''[Calc1]'', f_name = ''Calc1'', f_role = ''Calculation'',
                          f_datatype = ''Real'', f_formula = ''SUM([Sales])'', f_usage = []\<rparr>)]"
  by code_simp

text \<open>
  Claim C6 (amended). Let a field of the metadata pass be named by a column definition
  that has a calculation child and is the last column definition of that technical name
  in the data source. Then both passes complete, and the field has role
  \<^verbatim>\<open>Calculation\<close>, the formula attribute of the calculation (empty if absent) and, as
  datatype, the \<open>datatype\<close> attribute of that column passed through \<^verbatim>\<open>str.capitalize\<close>
  (whatever that function does to the value) when the column has a non-empty one;
  otherwise, when no earlier column definition of that name carries a datatype either,
  the datatype of the metadata pass.
\<close>

theorem calculation_column_merge:
  assumes cols: "findall_desc ''column'' ds = cs1 @ c # cs2"
    and meta: "map_of (foldl metadata_step []
                 (filter (\<lambda>mr. el_get mr ''class'' = Some ''column'')
                    (findall_desc_child ''metadata-records'' ''metadata-record'' ds))) n = Some f0"
    and name: "nonempty (el_get c ''name'') = Some n"
    and calc: "find_child ''calculation'' c = Some calc"
    and last: "\<forall>c' \<in> set cs2. nonempty (el_get c' ''name'') \<noteq> Some n"
  shows "\<exists>fbt f. build_fields capitalize ds = Inr fbt \<and> map_of fbt n = Some f \<and>
           f_role f = ''Calculation'' \<and>
           f_formula f = (case nonempty (el_get calc ''formula'') of Some x \<Rightarrow> x | None \<Rightarrow> []) \<and>
           (case nonempty (el_get c ''datatype'') of
              Some t \<Rightarrow> f_datatype f = capitalize t
            | None \<Rightarrow>
                (\<forall>c' \<in> set cs1. nonempty (el_get c' ''name'') = Some n \<longrightarrow>
                                nonempty (el_get c' ''datatype'') = None)
                \<longrightarrow> f_datatype f = f_datatype f0)"
proof -
  let ?fbt0 = "foldl metadata_step []
                 (filter (\<lambda>mr. el_get mr ''class'' = Some ''column'')
                    (findall_desc_child ''metadata-records'' ''metadata-record'' ds))"
  from columns_pass_keeps [OF meta, where cs = cs1 and capitalize = capitalize] obtain fbt1 f1 where
    1: "foldl_exc (column_step capitalize) ?fbt0 cs1 = Inr fbt1" "map_of fbt1 n = Some f1"
       "(\<forall>c \<in> set cs1. nonempty (el_get c ''name'') = Some n \<longrightarrow>
                nonempty (el_get c ''datatype'') = None) \<longrightarrow> f_datatype f1 = f_datatype f0"
    by blast
  from column_step_same [OF name 1(2)] calc obtain f2 where
    2: "column_step capitalize fbt1 c = Inr (AList.update n f2 fbt1)"
       "f_datatype f2 = (case nonempty (el_get c ''datatype'') of
                              Some t \<Rightarrow> capitalize t | None \<Rightarrow> f_datatype f1)"
       "f_role f2 = ''Calculation''"
       "f_formula f2 = (case nonempty (el_get calc ''formula'') of Some x \<Rightarrow> x | None \<Rightarrow> [])"
    by blast
  have "map_of (AList.update n f2 fbt1) n = Some f2" by (simp add: update_conv')
  from columns_pass_keeps [OF this, where cs = cs2 and capitalize = capitalize] last obtain fbt3 where
    3: "foldl_exc (column_step capitalize) (AList.update n f2 fbt1) cs2 = Inr fbt3" "map_of fbt3 n = Some f2"
    by blast
  have "build_fields capitalize ds = Inr fbt3"
    by (simp add: build_fields_def cols foldl_exc_append 1(1) 2(1) 3(1))
  with 1 2 3 show ?thesis by (auto split: option.splits)
qed

theorem calculation_column_merge_witness:
  "\<exists>fbt f. build_fields capitalize_ascii
     (Element ''datasource'' [(''caption'', ''Orders''), (''name'', ''ds1'')] None
        [Element ''metadata-records'' [] None
           [Element ''metadata-record'' [(''class'', ''column'')] None
              [Element ''local-name'' [] (Some ''[Calc1]'') [],
               Element ''local-type'' [] (Some ''string'') []]],
         Element ''column'' [(''name'', ''[Calc1]''), (''role'', ''measure'')] None
           [Element ''calculation'' [(''formula'', ''SUM([Sales])'')] None []]]) = Inr fbt \<and>
     map_of fbt ''[Calc1]'' = Some f \<and> f_role f = ''Calculation'' \<and>
     f_formula f = ''SUM([Sales])'' \<and> f_datatype f = ''string''"
proof -
  let ?c = "Element ''column'' [(''name'', ''[Calc1]''), (''role'', ''measure'')] None
           [Element ''calculation'' [(''formula'', ''SUM([Sales])'')] None []]"
  let ?ds = "Element ''datasource'' [(''caption'', ''Orders''), (''name'', ''ds1'')] None
        [Element ''metadata-records'' [] None
           [Element ''metadata-record'' [(''class'', ''column'')] None
              [Element ''local-name'' [] (Some ''[Calc1]'') [],
               Element ''local-type'' [] (Some ''string'') []]], ?c]"
  let ?f0 = "\<lparr>f_tech_name = ''[Calc1]'', f_name = ''Calc1'', f_role = [],
              f_datatype = ''string'', f_formula = [], f_usage = []\<rparr>"
  let ?calc = "Element ''calculation'' [(''formula'', ''SUM([Sales])'')] None []"
  have 1: "findall_desc ''column'' ?ds = [] @ ?c # []" by code_simp
  have 2: "map_of (foldl metadata_step []
                 (filter (\<lambda>mr. el_get mr ''class'' = Some ''column'')
                    (findall_desc_child ''metadata-records'' ''metadata-record'' ?ds))) ''[Calc1]''
           = Some ?f0" by code_simp
  have 3: "nonempty (el_get ?c ''name'') = Some ''[Calc1]''" by code_simp
  have 4: "find_child ''calculation'' ?c = Some ?calc" by code_simp
  have 5: "\<forall>c' \<in> set []. nonempty (el_get c' ''name'') \<noteq> Some ''[Calc1]''" by simp
  have 6: "nonempty (el_get ?c ''datatype'') = None" by code_simp
  have 7: "nonempty (el_get ?calc ''formula'') = Some ''SUM([Sales])''" by code_simp
  from calculation_column_merge [OF 1 2 3 4 5, where capitalize = capitalize_ascii]
  show ?thesis unfolding 6 7 by simp
qed

section \<open>Data source loop\<close>

lemma build_fields_total: "\<exists>fbt. build_fields capitalize ds = Inr fbt"
  unfolding build_fields_def by (rule foldl_exc_total) (rule column_step_Inr)

lemma datasource_step_total: "\<exists>d'. datasource_step capitalize um d ds = Inr d'"
proof -
  obtain fbt where "build_fields capitalize ds = Inr fbt" using build_fields_total by blast
  then show ?thesis by (simp add: datasource_step_def Let_def split: option.splits)
qed

lemma parse_root_never_raises: "\<exists>d. parse_root capitalize root = Inr d"
  unfolding parse_root_def Let_def by (rule foldl_exc_total) (rule datasource_step_total)




text \<open>
  Claim C10. A data source element with neither a \<open>caption\<close> nor a \<open>name\<close> attribute is
  skipped: its iteration leaves the result as it was, and the loop gives the same outcome
  with the element removed from the list.
\<close>

theorem unnamed_datasource_skipped:
  assumes "el_get ds ''caption'' = None" and "el_get ds ''name'' = None"
  shows "datasource_step capitalize um d ds = Inr d \<and>
         foldl_exc (datasource_step capitalize um) d (xs @ ds # ys) =
         foldl_exc (datasource_step capitalize um) d (xs @ ys)"
proof -
  have 1: "datasource_step capitalize um d' ds = Inr d'" for d'
    using assms by (simp add: datasource_step_def is_parameters_def py_or_def)
  have "foldl_exc (datasource_step capitalize um) d (xs @ ds # ys) =
        foldl_exc (datasource_step capitalize um) d (xs @ ys)"
    by (simp add: foldl_exc_append 1 split: sum.splits)
  with 1 show ?thesis by simp
qed

theorem unnamed_datasource_skipped_witness:
  "datasource_step capitalize_ascii []
     \<lparr>datasources = [], worksheets = [], dashboards = [], parameters = []\<rparr>
     (Element ''datasource'' [(''inline'', ''true'')] None
        [Element ''column'' [(''name'', ''[Sales]'')] None []]) =
   Inr \<lparr>datasources = [], worksheets = [], dashboards = [], parameters = []\<rparr>"
proof -
  let ?ds = "Element ''datasource'' [(''inline'', ''true'')] None
        [Element ''column'' [(''name'', ''[Sales]'')] None []]"
  have 1: "el_get ?ds ''caption'' = None" by (simp add: el_get_def)
  have 2: "el_get ?ds ''name'' = None" by (simp add: el_get_def)
  from unnamed_datasource_skipped [OF 1 2, where capitalize = capitalize_ascii] show ?thesis by blast
qed

section \<open>Failure signal\<close>

lemma parse_twb_outcome:
  "parse_twb capitalize load print_error twb_path =
     (case load twb_path of
        Inl e \<Rightarrow> (case print_error twb_path e of Some e' \<Rightarrow> Inl e' | None \<Rightarrow> Inr None)
      | Inr root \<Rightarrow>
          (case parse_root capitalize root of
             Inl e \<Rightarrow> (case print_error twb_path e of Some e' \<Rightarrow> Inl e' | None \<Rightarrow> Inr None)
           | Inr d \<Rightarrow> Inr (Some d)))"
  by (simp add: parse_twb_def split: sum.splits)

lemma parse_twb_returns_when_print_succeeds:
  assumes "\<And>e. print_error twb_path e = None"
  shows "(\<exists>e. load twb_path = Inl e) \<Longrightarrow>
           parse_twb capitalize load print_error twb_path = Inr None"
    and "load twb_path = Inr root \<Longrightarrow>
           \<exists>d. parse_twb capitalize load print_error twb_path = Inr (Some d)"
proof -
  show "parse_twb capitalize load print_error twb_path = Inr None" if "\<exists>e. load twb_path = Inl e"
    using that assms by (auto simp: parse_twb_outcome)
  show "\<exists>d. parse_twb capitalize load print_error twb_path = Inr (Some d)"
    if "load twb_path = Inr root"
    using that parse_root_never_raises [of capitalize root] by (auto simp: parse_twb_outcome)
qed

text \<open>
  Claim C9 (\<open>parse_twb\<close> never lets an exception through and answers every exception by
  \<open>None\<close>). The handler prints the path before it returns. For the path
  \<^verbatim>\<open>missing_\ud800.twb\<close>, given by its code points, loading fails, the handler runs, its
  print to a UTF-8 output raises UnicodeEncodeError, and that exception reaches the
  caller instead of \<open>None\<close>.
\<close>

theorem parse_twb_handler_print_raises:
  "parse_twb capitalize_ascii
     (\<lambda>p. Inl (LoadError ''No such file or directory''))
     print_utf8
     [109, 105, 115, 115, 105, 110, 103, 95, 55296, 46, 116, 119, 98] =
   Inl (UnicodeEncodeError ''surrogates not allowed'')"
  by (simp add: parse_twb_def print_utf8_def)

end
